theory Spec2Isabelle
  imports Complex_Main
begin

section \<open>Dataset pre-processor: the image pipeline\<close>

text \<open>
  The program (\<^verbatim>\<open>Dataset_Pre-processor_Streamlit.py\<close>) is a thin layer over three
  libraries: Pillow (\<^verbatim>\<open>PIL.Image\<close>, \<^verbatim>\<open>ImageOps\<close>, \<^verbatim>\<open>ImageEnhance\<close>),
  \<^verbatim>\<open>rembg\<close> and \<^verbatim>\<open>pathlib\<close>. The functions of the program are translated line by line.
  Of the libraries the model keeps what the program can observe: the colour mode and the
  size of every image, the exceptions the library calls raise, and, for the pixel
  buffer, the term of library calls that produced it. Resampling and subject isolation
  stay uninterpreted constructors; the brightness enhancer is given its arithmetic on
  the channel values.

  Python's exceptions are values of type \<open>error\<close>; a function that may raise returns
  \<open>error + 'a\<close>, with \<open>Inl\<close> for the exception. Python's \<^verbatim>\<open>int\<close> is \<open>int\<close>. A Python
  \<^verbatim>\<open>float\<close> is the rational number it stands for, and every operation on floats rounds
  its exact result to 53 bits as the machine does.
\<close>

subsection \<open>Exceptions\<close>

datatype error =
    ValueError string
  | ZeroDivisionError string
  | OSError string

text \<open>\<^verbatim>\<open>str(e)\<close>: the message of the exception.\<close>

fun str_of :: "error \<Rightarrow> string" where
  "str_of (ValueError m) = m"
| "str_of (ZeroDivisionError m) = m"
| "str_of (OSError m) = m"

text \<open>Sequencing of calls that may raise: the first exception leaves the block.\<close>

definition bind_result :: "error + 'a \<Rightarrow> ('a \<Rightarrow> error + 'b) \<Rightarrow> error + 'b" where
  "bind_result r f = (case r of Inl e \<Rightarrow> Inl e | Inr x \<Rightarrow> f x)"

subsection \<open>Python arithmetic\<close>

text \<open>
  A Python \<^verbatim>\<open>float\<close> is an IEEE 754 binary64 number: a rational with 53 significant bits.
  Every arithmetic operation returns the exact result rounded to the nearest such number,
  a tie to the one with an even last bit. Pillow's blend works in binary32, with 24 bits.
  The exponent range is not modelled: the numbers formed here are quotients and products
  of pixel counts and of channel values, far inside it. An \<^verbatim>\<open>int\<close> operand enters an
  operation with its exact value, as every \<^verbatim>\<open>int\<close> below \<open>2\<^sup>5\<^sup>3\<close> does.
\<close>

text \<open>The integer part of the binary logarithm of a positive natural number.\<close>

fun ilog2 :: "nat \<Rightarrow> nat" where
  "ilog2 n = (if n < 2 then 0 else Suc (ilog2 (n div 2)))"

declare ilog2.simps [simp del]

text \<open>The binary exponent \<open>e\<close> of a positive rational \<open>x\<close>: \<open>2\<^sup>e \<le> x < 2\<^sup>e\<^sup>+\<^sup>1\<close>.\<close>

definition expo :: "rat \<Rightarrow> int" where
  "expo x =
     (if 1 \<le> x then int (ilog2 (nat \<lfloor>x\<rfloor>))
      else - int (ilog2 (nat \<lceil>1 / x\<rceil> - 1)) - 1)"

text \<open>\<^verbatim>\<open>int(round(x))\<close>: Python 3 rounds to the nearest integer, a tie to the even one.\<close>

definition py_round :: "rat \<Rightarrow> int" where
  "py_round x =
     (let f = \<lfloor>x\<rfloor>; r = x - of_int f
      in if r < 1 / 2 then f
         else if 1 / 2 < r then f + 1
         else if even f then f else f + 1)"

text \<open>Rounding to \<open>p\<close> significant bits, to nearest, ties to even.\<close>

definition round_binary :: "nat \<Rightarrow> rat \<Rightarrow> rat" where
  "round_binary p x =
     (if x = 0 then 0
      else
        let a = \<bar>x\<bar>; u = 2 powi (expo a + 1 - int p)
        in sgn x * of_int (py_round (a / u)) * u)"

definition float64 :: "rat \<Rightarrow> rat" where
  "float64 x = round_binary 53 x"

definition float32 :: "rat \<Rightarrow> rat" where
  "float32 x = round_binary 24 x"

text \<open>True division \<^verbatim>\<open>a / b\<close> of two \<^verbatim>\<open>int\<close>: raises on a zero divisor.\<close>

definition truediv :: "rat \<Rightarrow> rat \<Rightarrow> error + rat" where
  "truediv a b =
     (if b = 0 then Inl (ZeroDivisionError ''division by zero'') else Inr (float64 (a / b)))"

text \<open>The same with a \<^verbatim>\<open>float\<close> divisor, which has its own message.\<close>

definition floatdiv :: "rat \<Rightarrow> rat \<Rightarrow> error + rat" where
  "floatdiv a b =
     (if b = 0 then Inl (ZeroDivisionError ''float division by zero'')
      else Inr (float64 (a / b)))"

text \<open>The product \<^verbatim>\<open>a * b\<close> of an \<^verbatim>\<open>int\<close> and a \<^verbatim>\<open>float\<close>.\<close>

definition floatmul :: "rat \<Rightarrow> rat \<Rightarrow> rat" where
  "floatmul a b = float64 (a * b)"

subsection \<open>Images as Pillow shows them\<close>

text \<open>
  A colour is the tuple handed to \<^verbatim>\<open>Image.new\<close>: three channels for an RGB canvas,
  four for an RGBA one.
\<close>

datatype color = Color3 int int int | Color4 int int int int

type_synonym rgba = "int \<times> int \<times> int \<times> int"

text \<open>The pixel buffer, as the term of library calls that built it.\<close>

datatype pixels =
    Decoded string
  | Convert string pixels
  | Remove pixels
  | Fill color
  | Paste pixels int int pixels
  | PasteMasked pixels int int pixels
  | Resize int int pixels
  | Crop int int int int pixels
  | AlphaComposite pixels pixels
  | Brightness rat pixels

record image =
  mode :: string
  width :: int
  height :: int
  pixels :: pixels

text \<open>\<^verbatim>\<open>img.convert(m)\<close>: same size, mode \<open>m\<close>.\<close>

definition pil_convert :: "image \<Rightarrow> string \<Rightarrow> image" where
  "pil_convert img m = img\<lparr>mode := m, pixels := Convert m (pixels img)\<rparr>"

text \<open>\<^verbatim>\<open>Image.new(m, (w, h), c)\<close>: raises on a negative size.\<close>

definition pil_new :: "string \<Rightarrow> int \<Rightarrow> int \<Rightarrow> color \<Rightarrow> error + image" where
  "pil_new m w h c =
     (if w < 0 \<or> h < 0 then Inl (ValueError ''Width and height must be >= 0'')
      else Inr \<lparr>mode = m, width = w, height = h, pixels = Fill c\<rparr>)"

text \<open>
  \<^verbatim>\<open>img.resize((w, h), Image.LANCZOS)\<close>: a request for the image's own size returns a
  copy; otherwise the resampler refuses a size below one pixel.
\<close>

definition pil_resize :: "image \<Rightarrow> int \<Rightarrow> int \<Rightarrow> error + image" where
  "pil_resize img w h =
     (if (width img, height img) = (w, h) then Inr img
      else if w < 1 \<or> h < 1 then Inl (ValueError ''height and width must be > 0'')
      else Inr (img\<lparr>width := w, height := h, pixels := Resize w h (pixels img)\<rparr>))"

text \<open>\<^verbatim>\<open>canvas.paste(src, (x, y))\<close> and \<^verbatim>\<open>canvas.paste(src, (x, y), src)\<close>: the canvas keeps
  its mode and size.\<close>

definition pil_paste :: "image \<Rightarrow> image \<Rightarrow> int \<Rightarrow> int \<Rightarrow> image" where
  "pil_paste canvas src x y = canvas\<lparr>pixels := Paste (pixels canvas) x y (pixels src)\<rparr>"

definition pil_paste_masked :: "image \<Rightarrow> image \<Rightarrow> int \<Rightarrow> int \<Rightarrow> image" where
  "pil_paste_masked canvas src x y =
     canvas\<lparr>pixels := PasteMasked (pixels canvas) x y (pixels src)\<rparr>"

text \<open>\<^verbatim>\<open>img.crop((l, t, r, b))\<close>: the result has the size of the box, also where the box
  leaves the image.\<close>

definition pil_crop :: "image \<Rightarrow> int \<Rightarrow> int \<Rightarrow> int \<Rightarrow> int \<Rightarrow> error + image" where
  "pil_crop img l t r b =
     (if r < l then Inl (ValueError ''Coordinate 'right' is less than 'left' '')
      else if b < t then Inl (ValueError ''Coordinate 'lower' is less than 'upper' '')
      else Inr (img\<lparr>width := r - l, height := b - t, pixels := Crop l t r b (pixels img)\<rparr>))"

text \<open>\<^verbatim>\<open>bg.alpha_composite(out)\<close>, in place on \<open>bg\<close>: both images must be RGBA and of one
  size.\<close>

definition pil_alpha_composite :: "image \<Rightarrow> image \<Rightarrow> error + image" where
  "pil_alpha_composite bg im =
     (if mode bg \<noteq> ''RGBA'' \<or> mode im \<noteq> ''RGBA'' then Inl (ValueError ''image has wrong mode'')
      else if (width bg, height bg) \<noteq> (width im, height im)
        then Inl (ValueError ''images do not match'')
      else Inr (bg\<lparr>pixels := AlphaComposite (pixels bg) (pixels im)\<rparr>))"

text \<open>\<^verbatim>\<open>ImageOps.expand(img, border=p, fill=c)\<close>: a new image of the same mode, \<open>p\<close> pixels
  larger on each side, with the old one pasted at \<open>(p, p)\<close>.\<close>

definition imageops_expand :: "image \<Rightarrow> int \<Rightarrow> color \<Rightarrow> error + image" where
  "imageops_expand img p c =
     bind_result (pil_new (mode img) (p + width img + p) (p + height img + p) c)
       (\<lambda>out. Inr (pil_paste out img p p))"

text \<open>
  \<^verbatim>\<open>ImageEnhance.Brightness(img).enhance(factor)\<close>: same mode and size. The enhancer
  blends a black image that carries the alpha band of \<open>img\<close> with \<open>img\<close>, byte by byte, in
  single precision: a colour byte \<open>c\<close> becomes \<open>0 + factor * (c - 0)\<close>, cut to an integer
  and clipped to \<open>0..255\<close>; an alpha byte \<open>a\<close> becomes \<open>a + factor * (a - a)\<close>.
\<close>

definition brightness_enhance :: "image \<Rightarrow> rat \<Rightarrow> image" where
  "brightness_enhance img factor = img\<lparr>pixels := Brightness factor (pixels img)\<rparr>"

definition enhance_channel :: "rat \<Rightarrow> int \<Rightarrow> int" where
  "enhance_channel factor c =
     (let t = float32 (float32 factor * of_int c)
      in if t \<le> 0 then 0 else if 255 \<le> t then 255 else \<lfloor>t\<rfloor>)"

definition enhance_pixel :: "rat \<Rightarrow> rgba \<Rightarrow> rgba" where
  "enhance_pixel factor px =
     (case px of (r, g, b, a) \<Rightarrow>
        (enhance_channel factor r, enhance_channel factor g, enhance_channel factor b, a))"

text \<open>
  The pixel values of a buffer of an RGB or RGBA image, row by row (an RGB pixel has no
  fourth band; it is carried along unchanged). The first argument gives the values of
  every buffer the enhancer did not build: a decoded file, a resampled image, a cut-out.
\<close>

fun raster :: "(pixels \<Rightarrow> rgba list) \<Rightarrow> pixels \<Rightarrow> rgba list" where
  "raster other (Brightness factor p) = map (enhance_pixel factor) (raster other p)"
| "raster other p = other p"

text \<open>
  The words of the specification, "multiplies pixel luminance by a scalar factor": the
  luminance of a pixel is its weighted sum of the colour bands (as in Pillow's conversion
  to grey), and the luminance of every pixel of the new image is the factor times that of
  the old one.
\<close>

definition luminance :: "rgba \<Rightarrow> rat" where
  "luminance px =
     (case px of (r, g, b, a) \<Rightarrow> (299 * of_int r + 587 * of_int g + 114 * of_int b) / 1000)"

definition scales_luminance :: "rat \<Rightarrow> rgba list \<Rightarrow> rgba list \<Rightarrow> bool" where
  "scales_luminance factor old new =
     list_all2 (\<lambda>p p'. luminance p' = factor * luminance p) old new"

text \<open>\<^verbatim>\<open>rembg.remove(img)\<close>: the cut-out, an RGBA image of the size of its input.\<close>

definition rembg_remove :: "image \<Rightarrow> image" where
  "rembg_remove img = img\<lparr>mode := ''RGBA'', pixels := Remove (pixels img)\<rparr>"

subsection \<open>\<^verbatim>\<open>resize_image\<close>\<close>

text \<open>The inner function \<^verbatim>\<open>make_canvas(size)\<close>, closed over \<^verbatim>\<open>bg_mode\<close> and \<^verbatim>\<open>bg_rgba\<close>.\<close>

definition make_canvas :: "string \<Rightarrow> rgba \<Rightarrow> int \<Rightarrow> int \<Rightarrow> error + image" where
  "make_canvas bg_mode bg_rgba w h =
     (case bg_rgba of (r, g, b, a) \<Rightarrow>
        if bg_mode = ''transparent'' then pil_new ''RGBA'' w h (Color4 0 0 0 0)
        else if bg_mode = ''white'' then pil_new ''RGB'' w h (Color3 255 255 255)
        else if a = 255 then pil_new ''RGB'' w h (Color3 r g b)
        else pil_new ''RGBA'' w h (Color4 r g b a))"

definition resize_image ::
  "image \<Rightarrow> bool \<Rightarrow> int \<Rightarrow> int \<Rightarrow> string \<Rightarrow> string \<Rightarrow> rgba \<Rightarrow> error + image" where
  "resize_image img0 enable w h rmode bg_mode bg_rgba =
     (if \<not> enable \<or> w \<le> 0 \<or> h \<le> 0 then Inr img0
      else if rmode = ''stretch'' then pil_resize img0 w h
      else
        let img = (if mode img0 \<noteq> ''RGBA'' then pil_convert img0 ''RGBA'' else img0);
            src_w = width img; src_h = height img
        in bind_result (truediv (of_int src_w) (of_int src_h)) (\<lambda>src_ratio.
           bind_result (truediv (of_int w) (of_int h)) (\<lambda>dst_ratio.
             if rmode = ''keep_aspect_pad'' then
               bind_result
                 (if src_ratio > dst_ratio
                  then bind_result (floatdiv (of_int w) src_ratio) (\<lambda>q. Inr (w, py_round q))
                  else Inr (py_round (floatmul (of_int h) src_ratio), h))
                 (\<lambda>(new_w, new_h).
                    bind_result (pil_resize img new_w new_h) (\<lambda>resized.
                    bind_result (make_canvas bg_mode bg_rgba w h) (\<lambda>canvas.
                      let ox = (w - new_w) div 2; oy = (h - new_h) div 2
                      in Inr (pil_paste_masked canvas resized ox oy))))
             else if rmode = ''keep_aspect_crop'' then
               bind_result
                 (if src_ratio < dst_ratio
                  then bind_result (floatdiv (of_int w) src_ratio) (\<lambda>q. Inr (w, py_round q))
                  else Inr (py_round (floatmul (of_int h) src_ratio), h))
                 (\<lambda>(new_w, new_h).
                    bind_result (pil_resize img new_w new_h) (\<lambda>resized.
                      let left = (new_w - w) div 2; top = (new_h - h) div 2
                      in bind_result (pil_crop resized left top (left + w) (top + h)) (\<lambda>cropped.
                           if bg_mode = ''white'' \<or> (bg_mode = ''custom'' \<and> snd (snd (snd bg_rgba)) = 255)
                           then Inr (pil_convert cropped ''RGB'')
                           else Inr cropped)))
             else Inr img)))"

subsection \<open>\<^verbatim>\<open>remove_bg_and_square\<close>\<close>

text \<open>Lines 141-142: the optional uniform margin.\<close>

definition pad_step :: "int \<Rightarrow> image \<Rightarrow> error + image" where
  "pad_step pad out =
     (if pad > 0 then imageops_expand out pad (Color4 0 0 0 0) else Inr out)"

text \<open>Lines 147-158: the square of a fixed size. \<open>w\<close> and \<open>h\<close> are read again from the
  image after a resize; without one they are its size already.\<close>

definition square_fixed :: "int \<Rightarrow> bool \<Rightarrow> image \<Rightarrow> error + image" where
  "square_fixed target no_upscale out0 =
     (let w = width out0; h = height out0
      in bind_result (truediv (of_int target) (of_int w)) (\<lambda>sw.
         bind_result (truediv (of_int target) (of_int h)) (\<lambda>sh.
           let scale = min sw sh
           in bind_result
                (if scale < 1 \<or> (scale > 1 \<and> \<not> no_upscale) then
                   let use_scale = (if scale < 1 \<or> \<not> no_upscale then scale else 1);
                       new_w = max 1 (py_round (floatmul (of_int w) use_scale));
                       new_h = max 1 (py_round (floatmul (of_int h) use_scale))
                   in if (new_w, new_h) \<noteq> (w, h) then pil_resize out0 new_w new_h
                      else Inr out0
                 else Inr out0)
                (\<lambda>out.
                   bind_result (pil_new ''RGBA'' target target (Color4 0 0 0 0)) (\<lambda>canvas.
                     Inr (pil_paste_masked canvas out
                            ((target - width out) div 2) ((target - height out) div 2)))))))"

text \<open>Lines 160-163: the square of the longer side.\<close>

definition square_longest :: "image \<Rightarrow> error + image" where
  "square_longest out =
     (let w = width out; h = height out; side = max w h
      in bind_result (pil_new ''RGBA'' side side (Color4 0 0 0 0)) (\<lambda>canvas.
           Inr (pil_paste_masked canvas out ((side - w) div 2) ((side - h) div 2))))"

text \<open>Lines 144-163. \<^verbatim>\<open>square_size\<close> is an \<^verbatim>\<open>Optional[int]\<close>; \<^verbatim>\<open>None\<close> and \<open>0\<close> are
  false in the test \<^verbatim>\<open>square_size and square_size > 0\<close>.\<close>

definition square_step :: "bool \<Rightarrow> int option \<Rightarrow> bool \<Rightarrow> image \<Rightarrow> error + image" where
  "square_step square square_size no_upscale out =
     (if square then
        (case square_size of
           None \<Rightarrow> square_longest out
         | Some s \<Rightarrow>
             if s \<noteq> 0 \<and> s > 0 then square_fixed s no_upscale out
             else square_longest out)
      else Inr out)"

text \<open>Lines 165-175: compositing onto the chosen background.\<close>

definition composite_step :: "string \<Rightarrow> rgba \<Rightarrow> image \<Rightarrow> error + image" where
  "composite_step bg_mode bg_rgba out =
     (if bg_mode = ''white'' then
        bind_result (pil_new ''RGBA'' (width out) (height out) (Color4 255 255 255 255)) (\<lambda>bg.
        bind_result (pil_alpha_composite bg out) (\<lambda>bg.
          Inr (pil_convert bg ''RGB'')))
      else if bg_mode = ''custom'' then
        (case bg_rgba of (r, g, b, a) \<Rightarrow>
           bind_result (pil_new ''RGBA'' (width out) (height out) (Color4 r g b a)) (\<lambda>bg.
           bind_result (pil_alpha_composite bg out) (\<lambda>bg.
             Inr (if a = 255 then pil_convert bg ''RGB'' else bg))))
      else Inr out)"

definition remove_bg_and_square ::
  "image \<Rightarrow> string \<Rightarrow> rgba \<Rightarrow> int \<Rightarrow> bool \<Rightarrow> int option \<Rightarrow> bool \<Rightarrow> error + image" where
  "remove_bg_and_square img0 bg_mode bg_rgba pad square square_size no_upscale =
     (let img = (if mode img0 \<noteq> ''RGBA'' then pil_convert img0 ''RGBA'' else img0);
          out = rembg_remove img
      in bind_result (pad_step pad out) (\<lambda>out.
         bind_result (square_step square square_size no_upscale out) (\<lambda>out.
           composite_step bg_mode bg_rgba out)))"

subsection \<open>\<^verbatim>\<open>apply_brightness\<close>\<close>

definition apply_brightness :: "image \<Rightarrow> rat \<Rightarrow> image" where
  "apply_brightness img factor =
     (if factor = 1 then img else brightness_enhance img factor)"

subsection \<open>Paths\<close>

text \<open>
  A \<^verbatim>\<open>pathlib.Path\<close> is the list of its components; \<^verbatim>\<open>Path()\<close> is the empty list.
  \<^verbatim>\<open>str.lower\<close> is modelled on the ASCII letters.
\<close>

type_synonym path = "string list"

definition lower_char :: "char \<Rightarrow> char" where
  "lower_char c =
     (case map_of (zip ''ABCDEFGHIJKLMNOPQRSTUVWXYZ'' ''abcdefghijklmnopqrstuvwxyz'') c of
        None \<Rightarrow> c
      | Some d \<Rightarrow> d)"

definition lower :: "string \<Rightarrow> string" where
  "lower s = map lower_char s"

text \<open>\<^verbatim>\<open>p.name\<close>: the last component, empty for \<^verbatim>\<open>Path()\<close>.\<close>

definition path_name :: "path \<Rightarrow> string" where
  "path_name p = (if p = [] then [] else last p)"

text \<open>\<^verbatim>\<open>p.suffix\<close>: the name from its last dot on, unless that dot is the first or the
  last character of the name (\<^verbatim>\<open>i = name.rfind('.')\<close>, \<^verbatim>\<open>0 < i < len(name) - 1\<close>).\<close>

definition path_suffix :: "path \<Rightarrow> string" where
  "path_suffix p =
     (let name = path_name p;
          ext = rev (takeWhile (\<lambda>c. c \<noteq> CHR ''.'') (rev name))
      in if CHR ''.'' \<in> set name \<and> length ext + 1 < length name \<and> ext \<noteq> []
         then CHR ''.'' # ext else [])"

text \<open>\<^verbatim>\<open>p.with_suffix(s)\<close>.\<close>

definition with_suffix :: "path \<Rightarrow> string \<Rightarrow> error + path" where
  "with_suffix p s =
     (if CHR ''/'' \<in> set s then Inl (ValueError ''Invalid suffix'')
      else if (s \<noteq> [] \<and> hd s \<noteq> CHR ''.'') \<or> s = ''.'' then Inl (ValueError ''Invalid suffix'')
      else
        let name = path_name p
        in if name = [] then Inl (ValueError ''path has an empty name'')
           else
             let old_suffix = path_suffix p;
                 name' = (if old_suffix = [] then name @ s
                          else take (length name - length old_suffix) name @ s)
             in Inr (butlast p @ [name']))"

text \<open>\<^verbatim>\<open>p.relative_to(other)\<close>.\<close>

definition relative_to :: "path \<Rightarrow> path \<Rightarrow> error + path" where
  "relative_to p other =
     (if take (length other) p = other then Inr (drop (length other) p)
      else Inl (ValueError ''path is not in the subpath of the root''))"

subsection \<open>The file system\<close>

text \<open>
  What the disk does is not decided by the program: whether a file opens and decodes,
  whether a directory can be made, whether a write succeeds. These are the fields of
  the environment. The images written are kept in a store from paths to images.
\<close>

record env =
  open_image :: "path \<Rightarrow> error + image"
  mkdir_parents :: "path \<Rightarrow> error option"
  save_file :: "image \<Rightarrow> path \<Rightarrow> error option"

type_synonym disk = "path \<rightharpoonup> image"

definition ensure_dir :: "env \<Rightarrow> path \<Rightarrow> error + unit" where
  "ensure_dir ev p = (case mkdir_parents ev (butlast p) of Some e \<Rightarrow> Inl e | None \<Rightarrow> Inr ())"

text \<open>\<^verbatim>\<open>out_img.save(p)\<close>.\<close>

definition pil_save :: "env \<Rightarrow> image \<Rightarrow> path \<Rightarrow> disk \<Rightarrow> error + disk" where
  "pil_save ev img p d = (case save_file ev img p of Some e \<Rightarrow> Inl e | None \<Rightarrow> Inr (d(p \<mapsto> img)))"

subsection \<open>\<^verbatim>\<open>save_image\<close>\<close>

text \<open>Lines 235-236 and 239-240: the path the image is written to.\<close>

definition save_path :: "image \<Rightarrow> path \<Rightarrow> error + path" where
  "save_path out_img out_path =
     (if mode out_img = ''RGBA'' then
        (if lower (path_suffix out_path) \<notin> {''.png'', ''.webp''}
         then with_suffix out_path ''.png'' else Inr out_path)
      else
        (if lower (path_suffix out_path) \<notin> {''.jpg'', ''.jpeg'', ''.png'', ''.webp''}
         then with_suffix out_path ''.jpg'' else Inr out_path))"

definition save_image :: "env \<Rightarrow> image \<Rightarrow> path \<Rightarrow> disk \<Rightarrow> error + disk" where
  "save_image ev out_img out_path d =
     bind_result (ensure_dir ev out_path) (\<lambda>_.
     bind_result (save_path out_img out_path) (\<lambda>p.
       pil_save ev out_img p d))"

subsection \<open>\<^verbatim>\<open>process_one\<close>\<close>

text \<open>The keyword arguments of \<^verbatim>\<open>process_one\<close>.\<close>

record kwargs =
  operation :: string
  bg_mode :: string
  bg_rgba :: rgba
  pad :: int
  square :: bool
  square_size :: "int option"
  no_upscale :: bool
  brightness :: rat
  enable_resize :: bool
  target_w :: int
  target_h :: int
  resize_mode :: string

text \<open>Lines 264-276: the selected operation.\<close>

definition transform :: "kwargs \<Rightarrow> image \<Rightarrow> error + image" where
  "transform kw base =
     (if operation kw = ''bg_only'' then
        remove_bg_and_square base (bg_mode kw) (bg_rgba kw) (pad kw) (square kw)
          (square_size kw) (no_upscale kw)
      else if operation kw = ''resize_only'' then
        resize_image base True (target_w kw) (target_h kw) (resize_mode kw) (bg_mode kw)
          (bg_rgba kw)
      else if operation kw = ''brightness_only'' then
        Inr (apply_brightness base (brightness kw))
      else
        bind_result
          (remove_bg_and_square base (bg_mode kw) (bg_rgba kw) (pad kw) (square kw)
             (square_size kw) (no_upscale kw))
          (\<lambda>out.
             let out = apply_brightness out (brightness kw)
             in if enable_resize kw then
                  resize_image out True (target_w kw) (target_h kw) (resize_mode kw)
                    (bg_mode kw) (bg_rgba kw)
                else Inr out))"

text \<open>Lines 258-279: the body of the \<^verbatim>\<open>try\<close>.\<close>

definition process_body ::
  "env \<Rightarrow> path \<Rightarrow> path \<Rightarrow> path \<Rightarrow> kwargs \<Rightarrow> disk \<Rightarrow> error + (path \<times> disk)" where
  "process_body ev in_path in_root out_root kw d =
     bind_result (relative_to in_path in_root) (\<lambda>rel.
     bind_result (with_suffix (out_root @ rel) (path_suffix rel)) (\<lambda>out_path.
     bind_result (open_image ev in_path) (\<lambda>im.
       let base = (if mode im \<notin> {''RGB'', ''RGBA''} then pil_convert im ''RGBA'' else im)
       in bind_result (transform kw base) (\<lambda>out.
          bind_result (save_image ev out out_path d) (\<lambda>d'.
            Inr (out_path, d'))))))"

text \<open>Lines 257-281: \<^verbatim>\<open>except Exception as e\<close> turns the exception into the returned
  tuple. The disk is returned beside the tuple.\<close>

definition process_one ::
  "env \<Rightarrow> path \<Rightarrow> path \<Rightarrow> path \<Rightarrow> kwargs \<Rightarrow> disk \<Rightarrow> (path \<times> path \<times> bool \<times> string) \<times> disk" where
  "process_one ev in_path in_root out_root kw d =
     (case process_body ev in_path in_root out_root kw d of
        Inr (out_path, d') \<Rightarrow> ((in_path, out_path, True, []), d')
      | Inl e \<Rightarrow> ((in_path, [], False, str_of e), d))"

subsection \<open>The processing loop\<close>

text \<open>
  Lines 602-633. The keyword arguments of the call are computed from widget values that
  do not change while the loop runs, so the loop takes them as \<open>kw\<close>. The progress bar,
  the log line and the preview pair are display only and left out.
\<close>

record run_state =
  successes :: nat
  failures :: "(path \<times> string) list"
  written :: disk

primrec processing_loop ::
  "env \<Rightarrow> path \<Rightarrow> path \<Rightarrow> kwargs \<Rightarrow> path list \<Rightarrow> run_state \<Rightarrow> run_state" where
  "processing_loop ev in_root out_root kw [] st = st"
| "processing_loop ev in_root out_root kw (img_path # rest) st =
     (case process_one ev img_path in_root out_root kw (written st) of
        ((_, outp, ok, err), d) \<Rightarrow>
          processing_loop ev in_root out_root kw rest
            (if ok then st\<lparr>successes := successes st + 1, written := d\<rparr>
             else st\<lparr>failures := failures st @ [(img_path, err)], written := d\<rparr>))"

subsection \<open>Basic facts\<close>

lemma bind_result_Inl [simp]: "bind_result (Inl e) f = Inl e"
  by (simp add: bind_result_def)

lemma bind_result_Inr [simp]: "bind_result (Inr x) f = f x"
  by (simp add: bind_result_def)

text \<open>Rounding to an integer never crosses an integer bound, moves its argument by at most
  one half, and a number less than one half away from an integer is rounded to it at
  most.\<close>

lemma py_round_ge: "of_int n \<le> x \<Longrightarrow> n \<le> py_round x"
proof -
  assume "of_int n \<le> x"
  then have "n \<le> \<lfloor>x\<rfloor>" by (simp add: le_floor_iff)
  then show ?thesis by (simp add: py_round_def Let_def)
qed

lemma py_round_le: "x \<le> of_int n \<Longrightarrow> py_round x \<le> n"
proof -
  assume le: "x \<le> of_int n"
  have fl: "\<lfloor>x\<rfloor> \<le> n" using le by (simp add: floor_le_iff)
  show ?thesis
  proof (cases "\<lfloor>x\<rfloor> = n")
    case True
    then have "of_int n \<le> x" using of_int_floor_le [of x] by simp
    with le have "x = of_int n" by simp
    then show ?thesis by (simp add: py_round_def Let_def)
  next
    case False
    with fl have "\<lfloor>x\<rfloor> + 1 \<le> n" by simp
    then show ?thesis by (simp add: py_round_def Let_def)
  qed
qed

lemma py_round_near: "\<bar>of_int (py_round y) - y\<bar> \<le> 1 / 2"
proof -
  have "of_int \<lfloor>y\<rfloor> \<le> y" "y < of_int \<lfloor>y\<rfloor> + 1" by linarith+
  then show ?thesis by (auto simp: py_round_def Let_def abs_le_iff not_less)
qed


lemma py_round_ge_half: "of_int n - 1 / 2 < x \<Longrightarrow> n \<le> py_round x"
proof -
  assume gt: "of_int n - 1 / 2 < x"
  then have "of_int (n - 1) \<le> x" by simp
  then have fl: "n - 1 \<le> \<lfloor>x\<rfloor>" by (simp only: le_floor_iff)
  show ?thesis
  proof (cases "\<lfloor>x\<rfloor> = n - 1")
    case True
    then have "of_int \<lfloor>x\<rfloor> = (of_int n :: rat) - 1" by simp
    then have "1 / 2 < x - of_int \<lfloor>x\<rfloor>" using gt by simp
    then show ?thesis using True by (simp add: py_round_def Let_def)
  next
    case False
    with fl have "n \<le> \<lfloor>x\<rfloor>" by simp
    then show ?thesis by (simp add: py_round_def Let_def)
  qed
qed

subsection \<open>Rounding to a binary float\<close>

text \<open>The exponent brackets its argument between two powers of two.\<close>

lemma ilog2_bounds: "0 < n \<Longrightarrow> 2 ^ ilog2 n \<le> n \<and> n < 2 ^ Suc (ilog2 n)"
proof (induction n rule: ilog2.induct)
  case (1 n)
  show ?case
  proof (cases "n < 2")
    case True
    with "1.prems" have "n = 1" by simp
    then show ?thesis by (simp add: ilog2.simps [of "Suc 0"])
  next
    case False
    then have pos: "0 < n div 2" by simp
    from "1.IH" [OF False pos] have ih: "2 ^ ilog2 (n div 2) \<le> n div 2"
      "n div 2 < 2 ^ Suc (ilog2 (n div 2))" by simp_all
    have eq: "ilog2 n = Suc (ilog2 (n div 2))" using False by (simp add: ilog2.simps [of n])
    have "2 * 2 ^ ilog2 (n div 2) \<le> 2 * (n div 2)" using ih(1) by simp
    also have "\<dots> \<le> n" by simp
    finally have lo: "2 ^ ilog2 n \<le> n" by (simp add: eq)
    have "n div 2 + 1 \<le> 2 ^ Suc (ilog2 (n div 2))" using ih(2) by simp
    then have "2 * (n div 2 + 1) \<le> 2 * 2 ^ Suc (ilog2 (n div 2))" by simp
    moreover have "n < 2 * (n div 2 + 1)" by presburger
    ultimately have "n < 2 ^ Suc (ilog2 n)" by (simp add: eq)
    with lo show ?thesis by simp
  qed
qed

lemma expo_bounds:
  assumes "0 < x"
  shows "2 powi expo x \<le> x \<and> x < 2 powi (expo x + 1)"
proof (cases "1 \<le> x")
  case True
  define n where "n = nat \<lfloor>x\<rfloor>"
  have n: "0 < n" "of_nat n \<le> x" "x < of_nat n + 1"
    using True by (simp_all add: n_def le_floor_iff) linarith+
  have e: "expo x = int (ilog2 n)" using True by (simp add: expo_def n_def)
  from ilog2_bounds [OF n(1)] have b: "2 ^ ilog2 n \<le> n" "n + 1 \<le> 2 ^ Suc (ilog2 n)" by simp_all
  have p1: "(2 :: rat) powi expo x = 2 ^ ilog2 n" by (simp add: e)
  have p2: "(2 :: rat) powi (expo x + 1) = 2 ^ Suc (ilog2 n)"
  proof -
    have "expo x + 1 = int (Suc (ilog2 n))" by (simp add: e)
    then show ?thesis by (simp only: power_int_of_nat)
  qed
  have "(2 :: rat) ^ ilog2 n \<le> of_nat n" using b(1) by (metis of_nat_le_iff of_nat_numeral of_nat_power)
  also note n(2)
  finally have lo: "2 powi expo x \<le> x" by (simp only: p1)
  have "(of_nat (n + 1) :: rat) \<le> of_nat (2 ^ Suc (ilog2 n))" using b(2) by (simp only: of_nat_le_iff)
  then have "of_nat n + 1 \<le> (2 :: rat) ^ Suc (ilog2 n)" by simp
  with n(3) have "x < (2 :: rat) ^ Suc (ilog2 n)" by (rule less_le_trans)
  then have "x < 2 powi (expo x + 1)" by (simp only: p2)
  with lo show ?thesis by simp
next
  case False
  define y where "y = 1 / x"
  have y: "1 < y" using False assms by (simp add: y_def)
  define m where "m = nat \<lceil>y\<rceil> - 1"
  have c: "y \<le> of_int \<lceil>y\<rceil>" "of_int \<lceil>y\<rceil> < y + 1" by linarith+
  have c2: "2 \<le> \<lceil>y\<rceil>" using y by linarith
  have m: "0 < m" "of_nat m < y" "y \<le> of_nat m + 1"
    using c c2 by (simp_all add: m_def) linarith+
  have e: "expo x = - int (ilog2 m) - 1" using False by (simp add: expo_def m_def y_def)
  from ilog2_bounds [OF m(1)] have b: "2 ^ ilog2 m \<le> m" "m + 1 \<le> 2 ^ Suc (ilog2 m)" by simp_all
  have b1: "(2 :: rat) ^ ilog2 m \<le> of_nat m" using b(1) by (metis of_nat_le_iff of_nat_numeral of_nat_power)
  have "(of_nat (m + 1) :: rat) \<le> of_nat (2 ^ Suc (ilog2 m))" using b(2) by (simp only: of_nat_le_iff)
  then have b2: "of_nat m + 1 \<le> (2 :: rat) ^ Suc (ilog2 m)" by simp
  have ylo: "(2 :: rat) ^ ilog2 m < y" using b1 m(2) by (rule le_less_trans)
  have yhi: "y \<le> (2 :: rat) ^ Suc (ilog2 m)" using m(3) b2 by (rule order_trans)
  have x: "x = 1 / y" using assms by (simp add: y_def)
  have p1: "(2 :: rat) powi expo x = 1 / 2 ^ Suc (ilog2 m)"
  proof -
    have "expo x = - int (Suc (ilog2 m))" by (simp add: e)
    then show ?thesis by (simp only: power_int_minus_divide power_int_of_nat)
  qed
  have p2: "(2 :: rat) powi (expo x + 1) = 1 / 2 ^ ilog2 m"
  proof -
    have "expo x + 1 = - int (ilog2 m)" by (simp add: e)
    then show ?thesis by (simp only: power_int_minus_divide power_int_of_nat)
  qed
  have "1 / y < 1 / (2 :: rat) ^ ilog2 m" using ylo by (simp add: frac_less2)
  then have hi: "x < 2 powi (expo x + 1)" by (simp only: p2 x [symmetric])
  have "1 / (2 :: rat) ^ Suc (ilog2 m) \<le> 1 / y" using yhi y by (simp add: frac_le)
  then have lo: "2 powi expo x \<le> x" by (simp only: p1 x [symmetric])
  from lo hi show ?thesis by simp
qed

text \<open>
  The rounded value of a positive number lies within the relative error \<open>2\<^sup>-\<^sup>p\<close> of it, is
  at least the power of two below it, and does not cross an integer that has fewer than
  \<open>p\<close> bits.
\<close>

lemma round_binary_pos:
  assumes "0 < x"
  shows "round_binary p x =
           of_int (py_round (x / 2 powi (expo x + 1 - int p))) * 2 powi (expo x + 1 - int p)"
  using assms by (simp add: round_binary_def Let_def)

lemma round_binary_near:
  assumes "0 < x"
  shows "\<bar>round_binary p x - x\<bar> \<le> x * 2 powi (- int p)"
proof -
  define u :: rat where "u = 2 powi (expo x + 1 - int p)"
  have u: "0 < u" by (simp add: u_def)
  define m :: rat where "m = of_int (py_round (x / u))"
  have "\<bar>m - x / u\<bar> * u \<le> 1 / 2 * u"
    using py_round_near [of "x / u"] u unfolding m_def by (intro mult_right_mono) simp_all
  moreover have "\<bar>m - x / u\<bar> * u = \<bar>(m - x / u) * u\<bar>"
    using u by (simp add: abs_mult)
  moreover have "(m - x / u) * u = m * u - x"
    using u by (simp add: algebra_simps)
  ultimately have "\<bar>m * u - x\<bar> \<le> u / 2" by simp
  moreover have "round_binary p x = m * u"
    using assms by (simp add: round_binary_pos u_def m_def)
  ultimately have err: "\<bar>round_binary p x - x\<bar> \<le> u / 2" by simp
  have "u / 2 = 2 powi expo x * 2 powi (- int p)"
  proof -
    have "expo x + 1 - int p = expo x + (- int p + 1)" by simp
    then have "u = 2 powi expo x * 2 powi (- int p + 1)"
      unfolding u_def by (metis power_int_add zero_neq_numeral)
    also have "(2 :: rat) powi (- int p + 1) = 2 powi (- int p) * 2"
      by (rule power_int_add_1) simp
    finally show ?thesis by simp
  qed
  also have "\<dots> \<le> x * 2 powi (- int p)"
    using expo_bounds [OF assms] by (intro mult_right_mono) simp_all
  finally have "u / 2 \<le> x * 2 powi (- int p)" .
  with err show ?thesis by simp
qed

lemma round_binary_upper:
  "0 < x \<Longrightarrow> round_binary p x \<le> x * (1 + 2 powi (- int p))"
  using round_binary_near [of x p] by (simp add: abs_le_iff algebra_simps)

lemma round_binary_lower:
  "0 < x \<Longrightarrow> x * (1 - 2 powi (- int p)) \<le> round_binary p x"
  using round_binary_near [of x p] by (simp add: abs_le_iff algebra_simps)

lemma round_binary_ge_pow:
  assumes "0 < x" and "0 < p"
  shows "2 powi expo x \<le> round_binary p x"
proof -
  define u :: rat where "u = 2 powi (expo x + 1 - int p)"
  have u: "0 < u" by (simp add: u_def)
  have split: "(2 :: rat) powi expo x = 2 ^ (p - 1) * u"
  proof -
    have "expo x = int (p - 1) + (expo x + 1 - int p)" using assms(2) by simp
    then have "(2 :: rat) powi expo x = 2 powi int (p - 1) * 2 powi (expo x + 1 - int p)"
      by (metis power_int_add zero_neq_numeral)
    then show ?thesis by (simp add: u_def)
  qed
  have "of_int (2 ^ (p - 1)) \<le> x / u"
    using expo_bounds [OF assms(1)] u by (simp add: split pos_le_divide_eq)
  then have "2 ^ (p - 1) \<le> py_round (x / u)" by (rule py_round_ge)
  then have "(of_int (2 ^ (p - 1)) :: rat) \<le> of_int (py_round (x / u))" by (simp only: of_int_le_iff)
  then have "of_int (2 ^ (p - 1)) * u \<le> of_int (py_round (x / u)) * u"
    using u by (intro mult_right_mono) simp_all
  then show ?thesis using assms(1) by (simp add: round_binary_pos split u_def)
qed

lemma round_binary_positive: "0 < x \<Longrightarrow> 0 < p \<Longrightarrow> 0 < round_binary p x"
  using round_binary_ge_pow [of x p] zero_less_power_int [of "2 :: rat" "expo x"]
  by linarith

lemma round_binary_ge_one:
  assumes "1 \<le> x" and "0 < p"
  shows "1 \<le> round_binary p x"
proof -
  have pos: "0 < x" using assms(1) by simp
  have gt: "(1 :: rat) < 2 powi (expo x + 1)" using expo_bounds [OF pos] assms(1) by simp
  have "0 \<le> expo x"
  proof (rule ccontr)
    assume "\<not> 0 \<le> expo x"
    then have "expo x + 1 \<le> 0" by simp
    then have "(2 :: rat) powi (expo x + 1) \<le> 2 powi 0"
      by (intro power_int_increasing) simp_all
    with gt show False by simp
  qed
  then have "(1 :: rat) \<le> 2 powi expo x" by simp
  with round_binary_ge_pow [OF pos assms(2)] show ?thesis by simp
qed

lemma small_exponent_unit:
  assumes "e < int p"
  shows "(2 :: rat) powi (e + 1 - int p) = 1 / 2 ^ nat (int p - 1 - e)"
proof -
  have "e + 1 - int p = - int (nat (int p - 1 - e))" using assms by simp
  then show ?thesis by (simp only: power_int_minus_divide power_int_of_nat)
qed

lemma round_binary_le_int:
  assumes "0 < x" and "x \<le> of_int n" and "n < 2 ^ p"
  shows "round_binary p x \<le> of_int n"
proof -
  have "(2 :: rat) powi expo x \<le> of_int n"
    using expo_bounds [OF assms(1)] assms(2) by simp
  also have "(of_int n :: rat) < of_int (2 ^ p)" using assms(3) by (simp only: of_int_less_iff)
  finally have "(2 :: rat) powi expo x < 2 powi int p" by simp
  then have e: "expo x < int p"
    using power_int_increasing [of "int p" "expo x" "2 :: rat"] by (cases "expo x < int p") simp_all
  define k :: nat where "k = nat (int p - 1 - expo x)"
  have u: "(2 :: rat) powi (expo x + 1 - int p) = 1 / 2 ^ k"
    unfolding k_def using e by (rule small_exponent_unit)
  have "x * 2 ^ k \<le> of_int n * 2 ^ k" using assms(2) by (intro mult_right_mono) simp_all
  then have "x / (1 / 2 ^ k) \<le> of_int (n * 2 ^ k)" by simp
  then have "py_round (x / (1 / 2 ^ k)) \<le> n * 2 ^ k" by (rule py_round_le)
  then have "(of_int (py_round (x / (1 / 2 ^ k))) :: rat) \<le> of_int (n * 2 ^ k)"
    by (simp only: of_int_le_iff)
  then have "of_int (py_round (x / (1 / 2 ^ k))) * (1 / 2 ^ k) \<le> (of_int (n * 2 ^ k) :: rat) * (1 / 2 ^ k)"
    by (intro mult_right_mono) simp_all
  also have "(of_int (n * 2 ^ k) :: rat) * (1 / 2 ^ k) = of_int n" by simp
  finally show ?thesis using assms(1) by (simp only: round_binary_pos u)
qed




lemma ratio_positive:
  fixes s w :: int
  assumes "0 < s" and "0 < w"
  shows "0 < float64 (of_int s / of_int w)"
  unfolding float64_def using assms by (intro round_binary_positive) simp_all




subsection \<open>Resizing\<close>

text \<open>Whatever \<^verbatim>\<open>resize_image\<close> returns in one of its three modes has the target size.
  Stretching and crop-to-fill always return: neither side of the scaled image of the crop
  branch is below one pixel.\<close>

lemma resize_image_size:
  assumes "enable" "0 < w" "0 < h"
      and "rm = ''stretch'' \<or> rm = ''keep_aspect_pad'' \<or> rm = ''keep_aspect_crop''"
      and "resize_image img enable w h rm bgm c = Inr out"
  shows "width out = w \<and> height out = h"
  using assms
  by (auto simp: resize_image_def pil_resize_def Let_def bind_result_def truediv_def floatdiv_def
      make_canvas_def pil_new_def pil_paste_masked_def pil_crop_def pil_convert_def
      split: if_splits sum.splits prod.splits)

lemma resize_image_stretch_total:
  assumes "0 < w" "0 < h"
  shows "\<exists>res. resize_image img True w h ''stretch'' bgm c = Inr res \<and>
           width res = w \<and> height res = h"
  using assms by (auto simp: resize_image_def pil_resize_def)

lemma cover_height:
  fixes w h :: int
  assumes "0 < w" and "w < 2 ^ 31" and "0 < h" and "0 < sr"
      and "sr < float64 (of_int w / of_int h)"
  shows "1 \<le> py_round (float64 (of_int w / sr))"
proof -
  have "(of_int w :: rat) / of_int h \<le> of_int w"
    using assms(1,3) by (simp add: pos_divide_le_eq mult_le_cancel_left1)
  moreover have "(0 :: rat) < of_int w / of_int h" using assms(1,3) by simp
  moreover have "w < 2 ^ 53" using assms(2) by simp
  ultimately have "round_binary 53 (of_int w / of_int h) \<le> of_int w"
    by (intro round_binary_le_int)
  with assms(5) have "sr < of_int w" by (simp add: float64_def)
  then have "1 \<le> of_int w / sr" using assms(4) by (simp add: pos_le_divide_eq)
  then have "1 \<le> float64 (of_int w / sr)"
    unfolding float64_def by (intro round_binary_ge_one) simp_all
  then have "of_int 1 \<le> float64 (of_int w / sr)" by simp
  then show ?thesis by (rule py_round_ge)
qed

lemma cover_width:
  fixes w h :: int
  assumes "0 < w" and "0 < h" and "float64 (of_int w / of_int h) \<le> sr"
  shows "1 \<le> py_round (floatmul (of_int h) sr)"
proof -
  define eps :: rat where "eps = 2 powi (- int 53)"
  have eps: "eps = 1 / 2 ^ 53" by (simp add: eps_def power_int_minus_divide)
  have "of_int w / of_int h * (1 - eps) \<le> float64 (of_int w / of_int h)"
    unfolding float64_def eps_def using assms(1,2) by (intro round_binary_lower) simp
  also note assms(3)
  finally have "of_int h * (of_int w / of_int h * (1 - eps)) \<le> of_int h * sr"
    using assms(2) by (intro mult_left_mono) simp_all
  then have lo: "of_int w * (1 - eps) \<le> of_int h * sr" using assms(2) by simp
  have "(1 :: rat) \<le> of_int w" using assms(1) by simp
  then have "1 * (1 - eps) \<le> of_int w * (1 - eps)" by (intro mult_right_mono) (simp_all add: eps)
  with lo have x: "1 - eps \<le> of_int h * sr" by simp
  then have pos: "0 < of_int h * sr" by (simp add: eps)
  have "(1 - eps) * (1 - eps) \<le> of_int h * sr * (1 - eps)"
    using x by (intro mult_right_mono) (simp_all add: eps)
  also have "\<dots> \<le> round_binary 53 (of_int h * sr)"
    unfolding eps_def using pos by (rule round_binary_lower)
  finally have "(1 - eps) * (1 - eps) \<le> floatmul (of_int h) sr"
    by (simp add: floatmul_def float64_def)
  moreover have "of_int 1 - 1 / 2 < (1 - eps) * (1 - eps)" by (simp add: eps)
  ultimately have "of_int 1 - 1 / 2 < floatmul (of_int h) sr" by (rule order_less_le_trans [rotated])
  then show ?thesis by (rule py_round_ge_half)
qed

lemma resize_image_crop_total:
  assumes "0 < w" "w < 2 ^ 31" "0 < h" "0 < width img" "0 < height img"
  shows "\<exists>res. resize_image img True w h ''keep_aspect_crop'' bgm c = Inr res \<and>
           width res = w \<and> height res = h"
proof -
  define src where "src = (if mode img \<noteq> ''RGBA'' then pil_convert img ''RGBA'' else img)"
  have src: "width src = width img" "height src = height img"
    by (simp_all add: src_def pil_convert_def)
  define sr :: rat where "sr = float64 (of_int (width img) / of_int (height img))"
  have sr0: "0 < sr" unfolding sr_def using assms(4,5) by (rule ratio_positive)
  define nw where
    "nw = (if sr < float64 (of_int w / of_int h) then w else py_round (floatmul (of_int h) sr))"
  define nh where
    "nh = (if sr < float64 (of_int w / of_int h) then py_round (float64 (of_int w / sr)) else h)"
  have big: "1 \<le> nw" "1 \<le> nh"
    using cover_height [OF assms(1,2,3) sr0] cover_width [OF assms(1,3), of sr] assms(1,3)
    by (auto simp: nw_def nh_def)
  then have "\<exists>resized. pil_resize src nw nh = Inr resized \<and>
      width resized = nw \<and> height resized = nh"
    by (auto simp: pil_resize_def)
  then obtain resized where resized: "pil_resize src nw nh = Inr resized"
      "width resized = nw" "height resized = nh"
    by blast
  have "resize_image img True w h ''keep_aspect_crop'' bgm c =
          bind_result (pil_resize src nw nh) (\<lambda>resized.
            let left = (nw - w) div 2; top = (nh - h) div 2
            in bind_result (pil_crop resized left top (left + w) (top + h)) (\<lambda>cropped.
                 if bgm = ''white'' \<or> (bgm = ''custom'' \<and> snd (snd (snd c)) = 255)
                 then Inr (pil_convert cropped ''RGB'')
                 else Inr cropped))"
    using assms sr0
    by (simp add: resize_image_def truediv_def floatdiv_def Let_def src_def [symmetric] src
        sr_def [symmetric] nw_def nh_def)
  then show ?thesis
    using resized assms(1,3) by (simp add: Let_def pil_crop_def pil_convert_def)
qed

text \<open>
  Claim C1: with resizing enabled and a positive target \<open>(W, H)\<close>, every fit mode yields
  an image of exactly \<open>(W, H)\<close> pixels. The letterbox branch computes the scaled side as
  \<^verbatim>\<open>int(round(w / src_ratio))\<close> with no lower bound, where the square canvas code of
  \<^verbatim>\<open>remove_bg_and_square\<close> writes \<^verbatim>\<open>max(1, int(round(...)))\<close>. For a thin image the side
  rounds to zero and Pillow's resize raises: a 1024 x 2 banner fitted into 64 x 64 gives
  no image at all.
\<close>

theorem resize_image_pad_thin_raises:
  "resize_image \<lparr>mode = ''RGB'', width = 1024, height = 2, pixels = Decoded ''banner.jpg''\<rparr>
     True 64 64 ''keep_aspect_pad'' ''transparent'' (0, 0, 0, 0)
   = Inl (ValueError ''height and width must be > 0'')"
  by code_simp

theorem resize_image_pad_thin_raises_witness:
  "\<nexists>res. resize_image \<lparr>mode = ''RGB'', width = 1024, height = 2, pixels = Decoded ''banner.jpg''\<rparr>
     True 64 64 ''keep_aspect_pad'' ''transparent'' (0, 0, 0, 0) = Inr res"
  using resize_image_pad_thin_raises by simp

text \<open>
  Claim C10, as amended: \<^verbatim>\<open>resize_image\<close> returns its input unchanged when resizing is
  disabled or the target width or height is not positive. When resizing is enabled, the
  target is positive, the image has a height other than zero and the mode string is none
  of the three known ones, it returns the input converted to RGBA, which is the input
  itself only for an image that was RGBA already: the conversion of line 191 comes before
  the final \<^verbatim>\<open>return img\<close>.
\<close>

theorem resize_image_identity_cases:
  "(\<not> enable \<or> w \<le> 0 \<or> h \<le> 0 \<longrightarrow> resize_image img enable w h rm bgm c = Inr img) \<and>
   (enable \<and> 0 < w \<and> 0 < h \<and> height img \<noteq> 0 \<and>
    rm \<noteq> ''stretch'' \<and> rm \<noteq> ''keep_aspect_pad'' \<and> rm \<noteq> ''keep_aspect_crop'' \<longrightarrow>
      resize_image img enable w h rm bgm c =
        Inr (if mode img \<noteq> ''RGBA'' then pil_convert img ''RGBA'' else img))"
  by (auto simp: resize_image_def truediv_def floatdiv_def Let_def pil_convert_def)

theorem resize_image_identity_cases_witness:
  "resize_image \<lparr>mode = ''RGB'', width = 800, height = 600, pixels = Decoded ''photo.jpg''\<rparr>
     False 512 512 ''stretch'' ''transparent'' (0, 0, 0, 0)
   = Inr \<lparr>mode = ''RGB'', width = 800, height = 600, pixels = Decoded ''photo.jpg''\<rparr> \<and>
   resize_image \<lparr>mode = ''RGB'', width = 800, height = 600, pixels = Decoded ''photo.jpg''\<rparr>
     True 512 512 ''fit'' ''transparent'' (0, 0, 0, 0)
   = Inr \<lparr>mode = ''RGBA'', width = 800, height = 600,
          pixels = Convert ''RGBA'' (Decoded ''photo.jpg'')\<rparr>"
  using resize_image_identity_cases
    [of False 512 512 "\<lparr>mode = ''RGB'', width = 800, height = 600, pixels = Decoded ''photo.jpg''\<rparr>"
        "''stretch''" "''transparent''" "(0, 0, 0, 0)"]
    resize_image_identity_cases
    [of True 512 512 "\<lparr>mode = ''RGB'', width = 800, height = 600, pixels = Decoded ''photo.jpg''\<rparr>"
        "''fit''" "''transparent''" "(0, 0, 0, 0)"]
  by (simp add: pil_convert_def)

text \<open>The claim as first stated fails on an RGB image and an unknown mode string: the
  result is an RGBA image.\<close>

theorem resize_image_unknown_mode_counterexample:
  "resize_image \<lparr>mode = ''RGB'', width = 800, height = 600, pixels = Decoded ''photo.jpg''\<rparr>
     True 512 512 ''fit'' ''transparent'' (0, 0, 0, 0)
   \<noteq> Inr \<lparr>mode = ''RGB'', width = 800, height = 600, pixels = Decoded ''photo.jpg''\<rparr>"
  by (simp add: resize_image_def truediv_def floatdiv_def pil_convert_def)

subsection \<open>Brightness\<close>

text \<open>A channel stays a byte, and the rounded product of factor and channel is within
  the relative error of two single precision roundings of the exact product.\<close>

lemma enhance_channel_range: "0 \<le> enhance_channel f c \<and> enhance_channel f c \<le> 255"
  by (auto simp: enhance_channel_def Let_def not_le floor_le_iff le_floor_iff)

lemma single_product_near:
  fixes c :: int
  assumes "0 < f" and "0 < c"
  defines "eps \<equiv> (2 :: rat) powi (- int 24)"
  shows "f * of_int c * ((1 - eps) * (1 - eps)) \<le> float32 (float32 f * of_int c)"
    and "float32 (float32 f * of_int c) \<le> f * of_int c * ((1 + eps) * (1 + eps))"
proof -
  have eps: "eps = 1 / 2 ^ 24" by (simp add: eps_def power_int_minus_divide)
  have c: "(0 :: rat) < of_int c" using assms(2) by simp
  have a: "0 < float32 f" unfolding float32_def using assms(1) by (intro round_binary_positive) simp_all
  have alo: "f * (1 - eps) \<le> float32 f"
    unfolding float32_def eps_def using assms(1) by (rule round_binary_lower)
  have ahi: "float32 f \<le> f * (1 + eps)"
    unfolding float32_def eps_def using assms(1) by (rule round_binary_upper)
  have pos: "0 < float32 f * of_int c" using a c by simp
  have "f * (1 - eps) * of_int c * (1 - eps) \<le> float32 f * of_int c * (1 - eps)"
    using alo c by (intro mult_right_mono) (simp_all add: eps)
  also have "\<dots> \<le> float32 (float32 f * of_int c)"
    unfolding float32_def [of "_ * _"] eps_def using pos by (rule round_binary_lower)
  finally show "f * of_int c * ((1 - eps) * (1 - eps)) \<le> float32 (float32 f * of_int c)"
    by (simp add: mult_ac)
  have "float32 (float32 f * of_int c) \<le> float32 f * of_int c * (1 + eps)"
    unfolding float32_def [of "_ * _"] eps_def using pos by (rule round_binary_upper)
  also have "\<dots> \<le> f * (1 + eps) * of_int c * (1 + eps)"
    using ahi c by (intro mult_right_mono) (simp_all add: eps)
  finally show "float32 (float32 f * of_int c) \<le> f * of_int c * ((1 + eps) * (1 + eps))"
    by (simp add: mult_ac)
qed

text \<open>Below saturation the new channel is the exact product up to the cut to an integer;
  from 255 on it is the top of the range.\<close>

lemma enhance_channel_zero: "enhance_channel f 0 = 0"
  by (simp add: enhance_channel_def float32_def round_binary_def)

lemma enhance_channel_scaled:
  fixes c :: int
  assumes "0 < f" and "0 \<le> c" and "f * of_int c < 255"
  shows "\<bar>of_int (enhance_channel f c) - f * of_int c\<bar> < 1 + 1 / 1000"
proof (cases "c = 0")
  case True
  then show ?thesis by (simp add: enhance_channel_zero)
next
  case False
  with assms(2) have c: "0 < c" by simp
  define eps :: rat where "eps = 2 powi (- int 24)"
  have eps: "eps = 1 / 2 ^ 24" by (simp add: eps_def power_int_minus_divide)
  define x where "x = f * of_int c"
  define t where "t = float32 (float32 f * of_int c)"
  have x: "0 < x" "x < 255" using assms(1,3) c by (simp_all add: x_def)
  have lo: "x * ((1 - eps) * (1 - eps)) \<le> t" and hi: "t \<le> x * ((1 + eps) * (1 + eps))"
    unfolding x_def t_def eps_def using assms(1) c by (rule single_product_near)+
  have "x * ((1 + eps) * (1 + eps)) = x + x * (2 * eps + eps * eps)" by (simp add: algebra_simps)
  moreover have "x * (2 * eps + eps * eps) \<le> 255 * (2 * eps + eps * eps)"
    using x(2) by (intro mult_right_mono) (simp_all add: eps)
  moreover have "255 * (2 * eps + eps * eps) < 1 / 1000" by (simp add: eps)
  ultimately have up: "t < x + 1 / 1000" using hi by linarith
  have "x * ((1 - eps) * (1 - eps)) = x - x * (2 * eps - eps * eps)" by (simp add: algebra_simps)
  moreover have "x * (2 * eps - eps * eps) \<le> 255 * (2 * eps - eps * eps)"
    using x(2) by (intro mult_right_mono) (simp_all add: eps)
  moreover have "255 * (2 * eps - eps * eps) < 1 / 1000" by (simp add: eps)
  ultimately have dn: "x - 1 / 1000 < t" using lo by linarith
  have tpos: "0 < t"
  proof -
    have "0 < x * ((1 - eps) * (1 - eps))" using x(1) by (simp add: eps)
    with lo show ?thesis by linarith
  qed
  show ?thesis
  proof (cases "255 \<le> t")
    case True
    then have "enhance_channel f c = 255"
      using tpos by (simp add: enhance_channel_def Let_def t_def [symmetric])
    with True up x(2) show ?thesis by (simp add: x_def [symmetric] abs_less_iff)
  next
    case False
    then have e: "enhance_channel f c = \<lfloor>t\<rfloor>"
      using tpos by (simp add: enhance_channel_def Let_def t_def [symmetric])
    have "of_int \<lfloor>t\<rfloor> \<le> t" "t < of_int \<lfloor>t\<rfloor> + 1" by linarith+
    with up dn have "\<bar>of_int \<lfloor>t\<rfloor> - x\<bar> < 1 + 1 / 1000" by linarith
    then show ?thesis by (simp only: e x_def)
  qed
qed

lemma enhance_channel_saturated:
  fixes c :: int
  assumes "0 < f" and "0 < c" and "255 \<le> f * of_int c"
  shows "254 \<le> enhance_channel f c"
proof -
  define eps :: rat where "eps = 2 powi (- int 24)"
  have eps: "eps = 1 / 2 ^ 24" by (simp add: eps_def power_int_minus_divide)
  define t where "t = float32 (float32 f * of_int c)"
  have lo: "f * of_int c * ((1 - eps) * (1 - eps)) \<le> t"
    unfolding t_def eps_def using assms(1,2) by (rule single_product_near)
  have "255 * ((1 - eps) * (1 - eps)) \<le> f * of_int c * ((1 - eps) * (1 - eps))"
    using assms(3) by (intro mult_right_mono) (simp_all add: eps)
  moreover have "254 < 255 * ((1 - eps) * (1 - eps))" by (simp add: eps)
  ultimately have t: "254 < t" using lo by linarith
  then have "(254 :: int) \<le> \<lfloor>t\<rfloor>" by (simp add: le_floor_iff)
  with t show ?thesis by (simp add: enhance_channel_def Let_def t_def [symmetric])
qed

text \<open>
  Claim C8, as amended: \<^verbatim>\<open>apply_brightness\<close> with factor 1.0 returns its input, pixel for
  pixel. With any other factor the mode and the size stay, the alpha band stays, and
  every colour channel \<open>c\<close> of every pixel becomes the product \<open>factor * c\<close>, computed in
  single precision, cut to an integer and clipped to \<open>0..255\<close>: for a positive factor the
  new channel differs from \<open>factor * c\<close> by little more than one while \<open>factor * c < 255\<close>,
  and it is 254 or 255 from there on. The luminance is therefore scaled by the factor
  only up to this cut, and only while no channel saturates.
\<close>

theorem apply_brightness_channels:
  "apply_brightness img 1 = img \<and>
   (factor \<noteq> 1 \<longrightarrow>
      mode (apply_brightness img factor) = mode img \<and>
      width (apply_brightness img factor) = width img \<and>
      height (apply_brightness img factor) = height img \<and>
      raster other (pixels (apply_brightness img factor)) =
        map (enhance_pixel factor) (raster other (pixels img))) \<and>
   enhance_pixel factor (r, g, b, a) =
     (enhance_channel factor r, enhance_channel factor g, enhance_channel factor b, a) \<and>
   0 \<le> enhance_channel factor c \<and> enhance_channel factor c \<le> 255 \<and>
   (0 < factor \<and> 0 \<le> c \<and> factor * of_int c < 255 \<longrightarrow>
      \<bar>of_int (enhance_channel factor c) - factor * of_int c\<bar> < 1 + 1 / 1000) \<and>
   (0 < factor \<and> 0 < c \<and> 255 \<le> factor * of_int c \<longrightarrow> 254 \<le> enhance_channel factor c)"
  using enhance_channel_range [of factor c] enhance_channel_scaled [of factor c]
    enhance_channel_saturated [of factor c]
  by (simp add: apply_brightness_def brightness_enhance_def enhance_pixel_def)

theorem apply_brightness_channels_witness:
  "apply_brightness \<lparr>mode = ''RGBA'', width = 2, height = 1, pixels = Decoded ''two.png''\<rparr> 1
     = \<lparr>mode = ''RGBA'', width = 2, height = 1, pixels = Decoded ''two.png''\<rparr> \<and>
   (3 / 2 :: rat) \<noteq> 1 \<and>
   raster (\<lambda>p. [(100, 150, 200, 255), (10, 20, 30, 0)])
     (pixels (apply_brightness
        \<lparr>mode = ''RGBA'', width = 2, height = 1, pixels = Decoded ''two.png''\<rparr> (3 / 2)))
   = [(150, 225, 255, 255), (15, 30, 45, 0)] \<and>
   \<bar>of_int (enhance_channel (3 / 2) 150) - (3 / 2 :: rat) * of_int 150\<bar> < 1 + 1 / 1000 \<and>
   254 \<le> enhance_channel (3 / 2) 200"
proof -
  have ne: "(3 / 2 :: rat) \<noteq> 1" by simp
  have h1: "0 < (3 / 2 :: rat) \<and> (0 :: int) \<le> 150 \<and> (3 / 2 :: rat) * of_int 150 < 255"
    by simp
  have h2: "0 < (3 / 2 :: rat) \<and> (0 :: int) < 200 \<and> 255 \<le> (3 / 2 :: rat) * of_int 200"
    by simp
  note t1 = apply_brightness_channels
    [of "\<lparr>mode = ''RGBA'', width = 2, height = 1, pixels = Decoded ''two.png''\<rparr>" "3 / 2"
        "\<lambda>p. [(100, 150, 200, 255), (10, 20, 30, 0)]" 100 150 200 255 150]
  note t2 = apply_brightness_channels
    [of "\<lparr>mode = ''RGBA'', width = 2, height = 1, pixels = Decoded ''two.png''\<rparr>" "3 / 2"
        "\<lambda>p. [(100, 150, 200, 255), (10, 20, 30, 0)]" 100 150 200 255 200]
  have a: "apply_brightness \<lparr>mode = ''RGBA'', width = 2, height = 1, pixels = Decoded ''two.png''\<rparr> 1
     = \<lparr>mode = ''RGBA'', width = 2, height = 1, pixels = Decoded ''two.png''\<rparr>"
    using t1 by (rule conjunct1)
  have b: "raster (\<lambda>p. [(100, 150, 200, 255), (10, 20, 30, 0)])
     (pixels (apply_brightness
        \<lparr>mode = ''RGBA'', width = 2, height = 1, pixels = Decoded ''two.png''\<rparr> (3 / 2)))
   = map (enhance_pixel (3 / 2))
       (raster (\<lambda>p. [(100, 150, 200, 255), (10, 20, 30, 0)])
          (pixels \<lparr>mode = ''RGBA'', width = 2, height = 1, pixels = Decoded ''two.png''\<rparr>))"
    using t1 ne by blast
  have c: "\<bar>of_int (enhance_channel (3 / 2) 150) - (3 / 2 :: rat) * of_int 150\<bar> < 1 + 1 / 1000"
    using t1 h1 by blast
  have d: "254 \<le> enhance_channel (3 / 2) 200"
    using t2 h2 by blast
  have e: "map (enhance_pixel (3 / 2))
       (raster (\<lambda>p. [(100, 150, 200, 255), (10, 20, 30, 0)])
          (pixels \<lparr>mode = ''RGBA'', width = 2, height = 1, pixels = Decoded ''two.png''\<rparr>))
     = [(150, 225, 255, 255), (15, 30, 45, 0)]"
    by code_simp
  from a ne b [unfolded e] c d show ?thesis by blast
qed

text \<open>The claim as first stated, that every other factor scales the luminance by that
  factor, fails where a channel saturates: a white pixel stays white under factor 2.\<close>

theorem apply_brightness_saturates_counterexample:
  "\<not> scales_luminance 2
       (raster (\<lambda>p. [(255, 255, 255, 255)])
          (pixels \<lparr>mode = ''RGB'', width = 1, height = 1, pixels = Decoded ''white.png''\<rparr>))
       (raster (\<lambda>p. [(255, 255, 255, 255)])
          (pixels (apply_brightness
             \<lparr>mode = ''RGB'', width = 1, height = 1, pixels = Decoded ''white.png''\<rparr> 2)))"
  by code_simp

subsection \<open>Background removal and the square canvas\<close>



text \<open>On an image of positive size no step of \<^verbatim>\<open>remove_bg_and_square\<close> raises.\<close>

lemma pil_resize_total:
  assumes "1 \<le> a" "1 \<le> b"
  shows "\<exists>res. pil_resize img a b = Inr res \<and> mode res = mode img \<and> width res = a \<and> height res = b"
  using assms by (auto simp: pil_resize_def)

lemma square_fixed_total:
  assumes "0 < s" "0 < width img" "0 < height img"
  shows "\<exists>res. square_fixed s nu img = Inr res \<and> mode res = ''RGBA'' \<and>
           width res = s \<and> height res = s"
proof -
  define q :: rat where
    "q = min (float64 (of_int s / of_int (width img))) (float64 (of_int s / of_int (height img)))"
  define fit where "fit =
    (if q < 1 \<or> (q > 1 \<and> \<not> nu) then
       let use_scale = (if q < 1 \<or> \<not> nu then q else 1);
           new_w = max 1 (py_round (floatmul (of_int (width img)) use_scale));
           new_h = max 1 (py_round (floatmul (of_int (height img)) use_scale))
       in if (new_w, new_h) \<noteq> (width img, height img) then pil_resize img new_w new_h
          else Inr img
     else Inr img)"
  have "\<exists>res. fit = Inr res"
    using pil_resize_total [of _ _ img]
    by (auto simp: fit_def Let_def) (metis max.cobounded1)+
  then obtain res where res: "fit = Inr res" by blast
  have "square_fixed s nu img =
          bind_result fit (\<lambda>out.
            bind_result (pil_new ''RGBA'' s s (Color4 0 0 0 0)) (\<lambda>canvas.
              Inr (pil_paste_masked canvas out ((s - width out) div 2) ((s - height out) div 2))))"
    using assms by (simp add: square_fixed_def truediv_def Let_def fit_def q_def)
  then show ?thesis
    using assms res by (simp add: pil_new_def pil_paste_masked_def)
qed

lemma pad_step_total:
  assumes "0 < width img" "0 < height img"
  shows "\<exists>res. pad_step p img = Inr res \<and> mode res = mode img \<and>
           0 < width res \<and> 0 < height res"
  using assms
  by (auto simp: pad_step_def imageops_expand_def pil_new_def pil_paste_def)

lemma square_longest_total:
  assumes "0 < width img" "0 < height img"
  shows "\<exists>res. square_longest img = Inr res \<and> mode res = ''RGBA'' \<and>
           width res = max (width img) (height img) \<and>
           height res = max (width img) (height img)"
  using assms
  by (auto simp: square_longest_def Let_def pil_new_def pil_paste_masked_def)

lemma square_step_total:
  assumes "0 < width img" "0 < height img"
  shows "\<exists>res. square_step True ss nu img = Inr res \<and> mode res = ''RGBA'' \<and>
           width res = height res \<and> 0 < width res"
proof (cases "\<exists>s. ss = Some s \<and> 0 < s")
  case True
  then obtain s where s: "ss = Some s" "0 < s" by blast
  from square_fixed_total [OF s(2) assms, of nu] s show ?thesis
    by (auto simp: square_step_def)
next
  case False
  then have "square_step True ss nu img = square_longest img"
    by (cases ss) (auto simp: square_step_def)
  with square_longest_total [OF assms] assms show ?thesis by auto
qed

lemma composite_step_total:
  assumes "mode img = ''RGBA''" "0 \<le> width img" "0 \<le> height img"
  shows "\<exists>res. composite_step bgm c img = Inr res \<and>
           width res = width img \<and> height res = height img"
  using assms
  by (cases c)
     (auto simp: composite_step_def pil_new_def pil_alpha_composite_def pil_convert_def)

lemma square_step_mode:
  assumes "mode img = ''RGBA''" "0 < width img" "0 < height img"
  shows "\<exists>res. square_step sq ss nu img = Inr res \<and> mode res = ''RGBA'' \<and>
           0 \<le> width res \<and> 0 \<le> height res"
proof (cases sq)
  case True
  with square_step_total [OF assms(2,3), of ss nu] show ?thesis by auto
next
  case False
  with assms show ?thesis by (simp add: square_step_def)
qed





text \<open>
  Claim C5: with square mode on, for every image of positive size, every background,
  margin, square size and upscale flag, \<^verbatim>\<open>remove_bg_and_square\<close> returns an image whose
  width equals its height.
\<close>

theorem square_mode_gives_square:
  assumes "0 < width img" and "0 < height img"
  shows "\<exists>res. remove_bg_and_square img bgm c p True ss nu = Inr res \<and>
           width res = height res"
proof -
  define cut where
    "cut = rembg_remove (if mode img \<noteq> ''RGBA'' then pil_convert img ''RGBA'' else img)"
  have cut: "0 < width cut" "0 < height cut"
    using assms by (simp_all add: cut_def rembg_remove_def pil_convert_def)
  from pad_step_total [OF cut, of p] obtain padded where
    padded: "pad_step p cut = Inr padded" "0 < width padded" "0 < height padded"
    by blast
  from square_step_total [OF padded(2,3), of ss nu] obtain sq where
    sq: "square_step True ss nu padded = Inr sq" "mode sq = ''RGBA''"
        "width sq = height sq" "0 < width sq"
    by blast
  from composite_step_total [of sq bgm c] sq obtain res where
    res: "composite_step bgm c sq = Inr res" "width res = width sq" "height res = height sq"
    by auto
  have "remove_bg_and_square img bgm c p True ss nu = Inr res"
    using padded(1) sq(1) res(1) by (simp add: remove_bg_and_square_def Let_def cut_def)
  with res sq show ?thesis by simp
qed

theorem square_mode_gives_square_witness:
  "remove_bg_and_square \<lparr>mode = ''RGB'', width = 800, height = 600, pixels = Decoded ''photo.jpg''\<rparr>
     ''transparent'' (0, 0, 0, 0) 0 True None True
   = Inr \<lparr>mode = ''RGBA'', width = 800, height = 800,
          pixels = PasteMasked (Fill (Color4 0 0 0 0)) 0 100
            (Remove (Convert ''RGBA'' (Decoded ''photo.jpg'')))\<rparr>"
  using square_mode_gives_square
    [of "\<lparr>mode = ''RGB'', width = 800, height = 600, pixels = Decoded ''photo.jpg''\<rparr>"
        "''transparent''" "(0, 0, 0, 0)" 0 None True]
  by (simp add: remove_bg_and_square_def pad_step_def square_step_def square_longest_def
      composite_step_def rembg_remove_def pil_convert_def pil_new_def pil_paste_masked_def)

text \<open>
  Claim C4: the compositing step decides the colour mode of the result. With
  \<^verbatim>\<open>'transparent'\<close> the image passes through unchanged. With \<^verbatim>\<open>'white'\<close> the RGBA image is
  composited onto opaque white and converted to RGB. With \<^verbatim>\<open>'custom'\<close> it is composited
  onto the given colour and converted to RGB when the colour's alpha is 255, left RGBA
  otherwise. The image that reaches the step inside \<^verbatim>\<open>remove_bg_and_square\<close> is always
  RGBA, so on every image of positive size the function returns, in the mode given by
  the background alone.
\<close>

theorem composite_step_modes:
  "composite_step ''transparent'' (r, g, b, a) out = Inr out \<and>
   (mode out = ''RGBA'' \<and> 0 \<le> width out \<and> 0 \<le> height out \<longrightarrow>
      composite_step ''white'' (r, g, b, a) out =
        Inr \<lparr>mode = ''RGB'', width = width out, height = height out,
             pixels = Convert ''RGB''
               (AlphaComposite (Fill (Color4 255 255 255 255)) (pixels out))\<rparr> \<and>
      composite_step ''custom'' (r, g, b, a) out =
        Inr (if a = 255
             then \<lparr>mode = ''RGB'', width = width out, height = height out,
                   pixels = Convert ''RGB''
                     (AlphaComposite (Fill (Color4 r g b a)) (pixels out))\<rparr>
             else \<lparr>mode = ''RGBA'', width = width out, height = height out,
                   pixels = AlphaComposite (Fill (Color4 r g b a)) (pixels out)\<rparr>)) \<and>
   (0 < width img \<and> 0 < height img \<longrightarrow>
      (\<exists>res. remove_bg_and_square img bgm (r, g, b, a) p sq ss nu = Inr res \<and>
         mode res = (if bgm = ''white'' \<or> (bgm = ''custom'' \<and> a = 255) then ''RGB''
                     else ''RGBA'')))"
proof (intro conjI impI)
  show "composite_step ''transparent'' (r, g, b, a) out = Inr out"
    by (simp add: composite_step_def)
next
  assume "mode out = ''RGBA'' \<and> 0 \<le> width out \<and> 0 \<le> height out"
  then show "composite_step ''white'' (r, g, b, a) out =
        Inr \<lparr>mode = ''RGB'', width = width out, height = height out,
             pixels = Convert ''RGB''
               (AlphaComposite (Fill (Color4 255 255 255 255)) (pixels out))\<rparr>"
    by (simp add: composite_step_def pil_new_def pil_alpha_composite_def pil_convert_def)
next
  assume "mode out = ''RGBA'' \<and> 0 \<le> width out \<and> 0 \<le> height out"
  then show "composite_step ''custom'' (r, g, b, a) out =
        Inr (if a = 255
             then \<lparr>mode = ''RGB'', width = width out, height = height out,
                   pixels = Convert ''RGB''
                     (AlphaComposite (Fill (Color4 r g b a)) (pixels out))\<rparr>
             else \<lparr>mode = ''RGBA'', width = width out, height = height out,
                   pixels = AlphaComposite (Fill (Color4 r g b a)) (pixels out)\<rparr>)"
    by (simp add: composite_step_def pil_new_def pil_alpha_composite_def pil_convert_def)
next
  assume size: "0 < width img \<and> 0 < height img"
  define cut where
    "cut = rembg_remove (if mode img \<noteq> ''RGBA'' then pil_convert img ''RGBA'' else img)"
  have cut: "0 < width cut" "0 < height cut" "mode cut = ''RGBA''"
    using size by (simp_all add: cut_def rembg_remove_def pil_convert_def)
  from pad_step_total [OF cut(1,2), of p] cut(3) obtain padded where
    padded: "pad_step p cut = Inr padded" "mode padded = ''RGBA''"
      "0 < width padded" "0 < height padded"
    by auto
  from square_step_mode [OF padded(2,3,4), of sq ss nu] obtain sqd where
    sqd: "square_step sq ss nu padded = Inr sqd" "mode sqd = ''RGBA''"
      "0 \<le> width sqd" "0 \<le> height sqd"
    by blast
  have "\<exists>res. composite_step bgm (r, g, b, a) sqd = Inr res \<and>
          mode res = (if bgm = ''white'' \<or> (bgm = ''custom'' \<and> a = 255) then ''RGB''
                      else ''RGBA'')"
    using sqd(2,3,4)
    by (simp add: composite_step_def pil_new_def pil_alpha_composite_def pil_convert_def)
  then show "\<exists>res. remove_bg_and_square img bgm (r, g, b, a) p sq ss nu = Inr res \<and>
         mode res = (if bgm = ''white'' \<or> (bgm = ''custom'' \<and> a = 255) then ''RGB''
                     else ''RGBA'')"
    using padded(1) sqd(1) by (simp add: remove_bg_and_square_def Let_def cut_def)
qed

theorem composite_step_modes_witness:
  "composite_step ''white'' (0, 0, 0, 0)
     \<lparr>mode = ''RGBA'', width = 4, height = 3, pixels = Remove (Decoded ''a.png'')\<rparr>
   = Inr \<lparr>mode = ''RGB'', width = 4, height = 3,
          pixels = Convert ''RGB''
            (AlphaComposite (Fill (Color4 255 255 255 255)) (Remove (Decoded ''a.png'')))\<rparr> \<and>
   composite_step ''custom'' (10, 20, 30, 128)
     \<lparr>mode = ''RGBA'', width = 4, height = 3, pixels = Remove (Decoded ''a.png'')\<rparr>
   = Inr \<lparr>mode = ''RGBA'', width = 4, height = 3,
          pixels = AlphaComposite (Fill (Color4 10 20 30 128)) (Remove (Decoded ''a.png''))\<rparr> \<and>
   remove_bg_and_square
     \<lparr>mode = ''RGB'', width = 4, height = 3, pixels = Decoded ''a.jpg''\<rparr>
     ''custom'' (10, 20, 30, 255) 0 False None True
   = Inr \<lparr>mode = ''RGB'', width = 4, height = 3,
          pixels = Convert ''RGB''
            (AlphaComposite (Fill (Color4 10 20 30 255))
               (Remove (Convert ''RGBA'' (Decoded ''a.jpg''))))\<rparr>"
  using composite_step_modes
    [of 0 0 0 0 "\<lparr>mode = ''RGBA'', width = 4, height = 3, pixels = Remove (Decoded ''a.png'')\<rparr>"]
    composite_step_modes
    [of 10 20 30 128 "\<lparr>mode = ''RGBA'', width = 4, height = 3, pixels = Remove (Decoded ''a.png'')\<rparr>"]
    composite_step_modes
    [of 10 20 30 255 _ "\<lparr>mode = ''RGB'', width = 4, height = 3, pixels = Decoded ''a.jpg''\<rparr>"
        "''custom''" 0 False None True]
  by (simp add: remove_bg_and_square_def pad_step_def square_step_def composite_step_def
      rembg_remove_def pil_convert_def pil_new_def pil_alpha_composite_def)

subsection \<open>Saving\<close>

text \<open>The suffix of a path is the tail of its name, and replacing it gives a path with
  the new suffix.\<close>

lemma path_name_snoc [simp]: "path_name (q @ [n]) = n"
  by (simp add: path_name_def)

lemma path_suffix_snoc: "path_suffix (q @ [n]) = path_suffix [n]"
  by (simp add: path_suffix_def path_name_def)

lemma takeWhile_until: "c \<notin> set xs \<Longrightarrow> takeWhile (\<lambda>x. x \<noteq> c) (xs @ c # ys) = xs"
  by (induction xs) auto

lemma path_suffix_replaced:
  assumes "stem \<noteq> []" and "CHR ''.'' \<notin> set e" and "e \<noteq> []"
  shows "path_suffix (q @ [stem @ CHR ''.'' # e]) = CHR ''.'' # e"
proof -
  have "takeWhile (\<lambda>c. c \<noteq> CHR ''.'') (rev e @ CHR ''.'' # rev stem) = rev e"
    using assms(2) by (simp add: takeWhile_until)
  then show ?thesis using assms(1,3) by (simp add: path_suffix_def Let_def)
qed

lemma path_suffix_shorter:
  "path_suffix p \<noteq> [] \<Longrightarrow> length (path_suffix p) < length (path_name p)"
  by (auto simp: path_suffix_def Let_def split: if_splits)

lemma path_suffix_is_tail:
  "drop (length (path_name p) - length (path_suffix p)) (path_name p) = path_suffix p"
proof (cases "path_suffix p = []")
  case True
  then show ?thesis by simp
next
  case False
  define name where "name = path_name p"
  define ext where "ext = rev (takeWhile (\<lambda>c. c \<noteq> CHR ''.'') (rev name))"
  from False have dot: "CHR ''.'' \<in> set name" and suf: "path_suffix p = CHR ''.'' # ext"
    by (auto simp: path_suffix_def Let_def name_def ext_def split: if_splits)
  have "rev name = takeWhile (\<lambda>c. c \<noteq> CHR ''.'') (rev name) @ dropWhile (\<lambda>c. c \<noteq> CHR ''.'') (rev name)"
    by simp
  moreover have "dropWhile (\<lambda>c. c \<noteq> CHR ''.'') (rev name) \<noteq> []"
    using dot by (simp add: dropWhile_eq_Nil_conv) 
  then have "\<exists>rest. dropWhile (\<lambda>c. c \<noteq> CHR ''.'') (rev name) = CHR ''.'' # rest"
    using hd_dropWhile [of "\<lambda>c. c \<noteq> CHR ''.''" "rev name"]
    by (cases "dropWhile (\<lambda>c. c \<noteq> CHR ''.'') (rev name)") auto
  then obtain rest where rest: "dropWhile (\<lambda>c. c \<noteq> CHR ''.'') (rev name) = CHR ''.'' # rest"
    by blast
  ultimately have "rev name = rev ext @ CHR ''.'' # rest" by (simp add: ext_def)
  then have "name = rev rest @ CHR ''.'' # ext"
    by (metis rev_append rev_rev_ident rev.simps(2) append.assoc append_Cons append_Nil)
  then show ?thesis using suf by (simp add: name_def [symmetric])
qed

lemma name_split:
  "take (length (path_name p) - length (path_suffix p)) (path_name p) @ path_suffix p = path_name p"
  using path_suffix_is_tail [of p] append_take_drop_id [of "length (path_name p) - length (path_suffix p)" "path_name p"]
  by simp

lemma with_suffix_replaces:
  assumes "path_name p \<noteq> []" and "CHR ''.'' \<notin> set e" and "CHR ''/'' \<notin> set e" and "e \<noteq> []"
  shows "with_suffix p (CHR ''.'' # e) =
           Inr (butlast p @ [take (length (path_name p) - length (path_suffix p)) (path_name p) @ CHR ''.'' # e])"
    and "path_suffix (butlast p @ [take (length (path_name p) - length (path_suffix p)) (path_name p) @ CHR ''.'' # e]) = CHR ''.'' # e"
proof -
  show "with_suffix p (CHR ''.'' # e) =
           Inr (butlast p @ [take (length (path_name p) - length (path_suffix p)) (path_name p) @ CHR ''.'' # e])"
    using assms by (simp add: with_suffix_def Let_def)
  have "take (length (path_name p) - length (path_suffix p)) (path_name p) \<noteq> []"
    using assms(1) path_suffix_shorter [of p] by (cases "path_suffix p = []") auto
  then show "path_suffix (butlast p @ [take (length (path_name p) - length (path_suffix p)) (path_name p) @ CHR ''.'' # e]) = CHR ''.'' # e"
    using assms(2,4) by (rule path_suffix_replaced)
qed

lemma with_suffix_own:
  assumes "path_name p \<noteq> []" and "CHR ''/'' \<notin> set (path_name p)"
  shows "with_suffix p (path_suffix p) = Inr p"
proof -
  have sub: "set (path_suffix p) \<subseteq> set (path_name p)"
    using name_split [of p] by (metis set_append Un_upper2)
  have nodot: "path_suffix p \<noteq> ''.''" 
    by (auto simp: path_suffix_def Let_def)
  have hd: "path_suffix p \<noteq> [] \<Longrightarrow> hd (path_suffix p) = CHR ''.''"
    by (auto simp: path_suffix_def Let_def split: if_splits)
  have p: "p \<noteq> []" using assms(1) by (auto simp: path_name_def)
  have "butlast p @ [path_name p] = p" using p by (simp add: path_name_def)
  then show ?thesis
    using assms sub nodot hd name_split [of p]
    by (auto simp: with_suffix_def Let_def)
qed

lemma lower_known [simp]:
  "lower ''.png'' = ''.png''" "lower ''.jpg'' = ''.jpg''"
  by (simp_all add: lower_def lower_char_def)

text \<open>
  Claim C7: the output path of \<^verbatim>\<open>process_one\<close> is the relative path of the input under
  the output root (\<^verbatim>\<open>with_suffix\<close> of its own suffix changes nothing). \<^verbatim>\<open>save_image\<close> writes
  an RGBA image to that path when its suffix, in lower case, is \<^verbatim>\<open>.png\<close> or \<^verbatim>\<open>.webp\<close>, and
  to the path with the suffix replaced by \<^verbatim>\<open>.png\<close> otherwise; an image of another mode is
  written to the path itself for \<^verbatim>\<open>.jpg\<close>, \<^verbatim>\<open>.jpeg\<close>, \<^verbatim>\<open>.png\<close>, \<^verbatim>\<open>.webp\<close>, and with the suffix
  replaced by \<^verbatim>\<open>.jpg\<close> otherwise. So the suffix of the file an RGBA image is written to is
  always \<^verbatim>\<open>.png\<close> or \<^verbatim>\<open>.webp\<close>.
\<close>

theorem save_image_extension:
  "(rel \<noteq> [] \<and> last rel \<noteq> [] \<and> CHR ''/'' \<notin> set (last rel) \<longrightarrow>
      with_suffix (out_root @ rel) (path_suffix rel) = Inr (out_root @ rel)) \<and>
   (path_name p \<noteq> [] \<longrightarrow>
      (\<exists>p'. save_path img p = Inr p' \<and>
         (if mode img = ''RGBA'' then
            (if lower (path_suffix p) \<in> {''.png'', ''.webp''} then p' = p
             else p' = butlast p @
                    [take (length (path_name p) - length (path_suffix p)) (path_name p) @ ''.png'']) \<and>
            lower (path_suffix p') \<in> {''.png'', ''.webp''}
          else
            (if lower (path_suffix p) \<in> {''.jpg'', ''.jpeg'', ''.png'', ''.webp''} then p' = p
             else p' = butlast p @
                    [take (length (path_name p) - length (path_suffix p)) (path_name p) @ ''.jpg'']) \<and>
            lower (path_suffix p') \<in> {''.jpg'', ''.jpeg'', ''.png'', ''.webp''}) \<and>
         save_image ev img p d =
           (case mkdir_parents ev (butlast p) of
              Some e \<Rightarrow> Inl e
            | None \<Rightarrow> (case save_file ev img p' of
                         Some e \<Rightarrow> Inl e
                       | None \<Rightarrow> Inr (d(p' \<mapsto> img))))))"
proof (intro conjI impI)
  assume rel: "rel \<noteq> [] \<and> last rel \<noteq> [] \<and> CHR ''/'' \<notin> set (last rel)"
  then have "path_name (out_root @ rel) = last rel" "path_name rel = last rel"
    by (simp_all add: path_name_def)
  moreover have "path_suffix (out_root @ rel) = path_suffix rel"
    using rel by (simp add: path_suffix_def path_name_def)
  ultimately show "with_suffix (out_root @ rel) (path_suffix rel) = Inr (out_root @ rel)"
    using with_suffix_own [of "out_root @ rel"] rel by simp
next
  assume name: "path_name p \<noteq> []"
  have png: "with_suffix p ''.png'' =
      Inr (butlast p @ [take (length (path_name p) - length (path_suffix p)) (path_name p) @ ''.png''])"
    "path_suffix (butlast p @ [take (length (path_name p) - length (path_suffix p)) (path_name p) @ ''.png'']) = ''.png''"
    using with_suffix_replaces [OF name, of "''png''"] by simp_all
  have jpg: "with_suffix p ''.jpg'' =
      Inr (butlast p @ [take (length (path_name p) - length (path_suffix p)) (path_name p) @ ''.jpg''])"
    "path_suffix (butlast p @ [take (length (path_name p) - length (path_suffix p)) (path_name p) @ ''.jpg'']) = ''.jpg''"
    using with_suffix_replaces [OF name, of "''jpg''"] by simp_all
  show "\<exists>p'. save_path img p = Inr p' \<and>
         (if mode img = ''RGBA'' then
            (if lower (path_suffix p) \<in> {''.png'', ''.webp''} then p' = p
             else p' = butlast p @
                    [take (length (path_name p) - length (path_suffix p)) (path_name p) @ ''.png'']) \<and>
            lower (path_suffix p') \<in> {''.png'', ''.webp''}
          else
            (if lower (path_suffix p) \<in> {''.jpg'', ''.jpeg'', ''.png'', ''.webp''} then p' = p
             else p' = butlast p @
                    [take (length (path_name p) - length (path_suffix p)) (path_name p) @ ''.jpg'']) \<and>
            lower (path_suffix p') \<in> {''.jpg'', ''.jpeg'', ''.png'', ''.webp''}) \<and>
         save_image ev img p d =
           (case mkdir_parents ev (butlast p) of
              Some e \<Rightarrow> Inl e
            | None \<Rightarrow> (case save_file ev img p' of
                         Some e \<Rightarrow> Inl e
                       | None \<Rightarrow> Inr (d(p' \<mapsto> img))))"
    using png jpg
    by (auto simp: save_path_def save_image_def ensure_dir_def pil_save_def
        split: option.splits)
qed

theorem save_image_extension_witness:
  "with_suffix ([''out''] @ [''cats'', ''tom.bmp'']) (path_suffix [''cats'', ''tom.bmp''])
     = Inr [''out'', ''cats'', ''tom.bmp''] \<and>
   save_path \<lparr>mode = ''RGBA'', width = 8, height = 8, pixels = Remove (Decoded ''tom.bmp'')\<rparr>
     [''out'', ''cats'', ''tom.bmp''] = Inr [''out'', ''cats'', ''tom.png''] \<and>
   save_path \<lparr>mode = ''RGB'', width = 8, height = 8, pixels = Decoded ''tom.bmp''\<rparr>
     [''out'', ''cats'', ''tom.bmp''] = Inr [''out'', ''cats'', ''tom.jpg'']"
  using save_image_extension
    [of "[''cats'', ''tom.bmp'']" "[''out'']" "[''out'', ''cats'', ''tom.bmp'']"
        "\<lparr>mode = ''RGBA'', width = 8, height = 8, pixels = Remove (Decoded ''tom.bmp'')\<rparr>"]
    save_image_extension
    [of "[''cats'', ''tom.bmp'']" "[''out'']" "[''out'', ''cats'', ''tom.bmp'']"
        "\<lparr>mode = ''RGB'', width = 8, height = 8, pixels = Decoded ''tom.bmp''\<rparr>"]
  by (simp add: path_name_def path_suffix_def lower_def lower_char_def)

subsection \<open>One file, and the batch\<close>



text \<open>Whether the body of the \<^verbatim>\<open>try\<close> raises does not depend on what was written before.\<close>

lemma process_body_Inl_any_disk:
  "process_body ev p in_root out_root kw d = Inl e \<Longrightarrow>
   process_body ev p in_root out_root kw d' = Inl e"
  by (auto simp: process_body_def save_image_def pil_save_def bind_result_def Let_def
      split: sum.splits option.splits)

lemma process_body_Inr_any_disk:
  "process_body ev p in_root out_root kw d = Inr r \<Longrightarrow>
   \<exists>r'. process_body ev p in_root out_root kw d' = Inr r'"
  by (auto simp: process_body_def save_image_def pil_save_def bind_result_def Let_def
      split: sum.splits option.splits)

lemma processing_loop_failures:
  "failures (processing_loop ev in_root out_root kw images st) =
     failures st @
     concat (map (\<lambda>p. case process_body ev p in_root out_root kw Map.empty of
                          Inl e \<Rightarrow> [(p, str_of e)] | Inr _ \<Rightarrow> []) images)"
proof (induction images arbitrary: st)
  case Nil
  then show ?case by simp
next
  case (Cons p images)
  show ?case
  proof (cases "process_body ev p in_root out_root kw (written st)")
    case (Inl e)
    then have "process_body ev p in_root out_root kw Map.empty = Inl e"
      by (rule process_body_Inl_any_disk)
    with Inl show ?thesis by (simp add: Cons.IH process_one_def)
  next
    case (Inr r)
    then obtain r' where "process_body ev p in_root out_root kw Map.empty = Inr r'"
      using process_body_Inr_any_disk by blast
    with Inr show ?thesis by (simp add: Cons.IH process_one_def split: prod.splits)
  qed
qed

lemma processing_loop_counts:
  "successes (processing_loop ev in_root out_root kw images st)
     + length (failures (processing_loop ev in_root out_root kw images st))
   = successes st + length (failures st) + length images"
proof (induction images arbitrary: st)
  case Nil
  then show ?case by simp
next
  case (Cons p images)
  show ?case
    by (auto simp: Cons.IH process_one_def split: sum.splits prod.splits)
qed

text \<open>
  Claim C2: an exception raised in the body of the \<^verbatim>\<open>try\<close> makes \<^verbatim>\<open>process_one\<close> return
  the input path, an empty path, the flag \<^verbatim>\<open>False\<close> and the text of the exception; this
  holds for an exception of opening the file, of the transform and of saving. The loop
  appends the input path and the message of every file that failed to \<^verbatim>\<open>failures\<close>, in
  order, and goes through the whole list: successes and failures together count every
  file.
\<close>

theorem process_one_catches_and_loop_continues:
  "(process_body ev p in_root out_root kw d = Inl e \<longrightarrow>
      process_one ev p in_root out_root kw d = ((p, [], False, str_of e), d)) \<and>
   (relative_to p in_root = Inr rel \<and>
    with_suffix (out_root @ rel) (path_suffix rel) = Inr out_path \<longrightarrow>
      (open_image ev p = Inl e \<longrightarrow> process_body ev p in_root out_root kw d = Inl e) \<and>
      (open_image ev p = Inr im \<and>
       transform kw (if mode im \<notin> {''RGB'', ''RGBA''} then pil_convert im ''RGBA'' else im) = Inl e \<longrightarrow>
         process_body ev p in_root out_root kw d = Inl e) \<and>
      (open_image ev p = Inr im \<and>
       transform kw (if mode im \<notin> {''RGB'', ''RGBA''} then pil_convert im ''RGBA'' else im) = Inr res \<and>
       save_image ev res out_path d = Inl e \<longrightarrow>
         process_body ev p in_root out_root kw d = Inl e)) \<and>
   failures (processing_loop ev in_root out_root kw images st) =
     failures st @
     concat (map (\<lambda>q. case process_body ev q in_root out_root kw Map.empty of
                          Inl x \<Rightarrow> [(q, str_of x)] | Inr _ \<Rightarrow> []) images) \<and>
   successes (processing_loop ev in_root out_root kw images st)
     + length (failures (processing_loop ev in_root out_root kw images st))
   = successes st + length (failures st) + length images"
proof (intro conjI)
  show "process_body ev p in_root out_root kw d = Inl e \<longrightarrow>
      process_one ev p in_root out_root kw d = ((p, [], False, str_of e), d)"
    by (simp add: process_one_def)
  show "relative_to p in_root = Inr rel \<and>
    with_suffix (out_root @ rel) (path_suffix rel) = Inr out_path \<longrightarrow>
      (open_image ev p = Inl e \<longrightarrow> process_body ev p in_root out_root kw d = Inl e) \<and>
      (open_image ev p = Inr im \<and>
       transform kw (if mode im \<notin> {''RGB'', ''RGBA''} then pil_convert im ''RGBA'' else im) = Inl e \<longrightarrow>
         process_body ev p in_root out_root kw d = Inl e) \<and>
      (open_image ev p = Inr im \<and>
       transform kw (if mode im \<notin> {''RGB'', ''RGBA''} then pil_convert im ''RGBA'' else im) = Inr res \<and>
       save_image ev res out_path d = Inl e \<longrightarrow>
         process_body ev p in_root out_root kw d = Inl e)"
    by (simp add: process_body_def Let_def)
  show "failures (processing_loop ev in_root out_root kw images st) =
     failures st @
     concat (map (\<lambda>q. case process_body ev q in_root out_root kw Map.empty of
                          Inl x \<Rightarrow> [(q, str_of x)] | Inr _ \<Rightarrow> []) images)"
    by (rule processing_loop_failures)
  show "successes (processing_loop ev in_root out_root kw images st)
     + length (failures (processing_loop ev in_root out_root kw images st))
   = successes st + length (failures st) + length images"
    by (rule processing_loop_counts)
qed

theorem process_one_catches_and_loop_continues_witness:
  "process_one
     \<lparr>open_image = (\<lambda>q. if q = [''in'', ''ok.png'']
                          then Inr \<lparr>mode = ''RGB'', width = 8, height = 8, pixels = Decoded ''ok.png''\<rparr>
                          else Inl (OSError ''cannot identify image file'')),
      mkdir_parents = (\<lambda>q. None), save_file = (\<lambda>i q. None)\<rparr>
     [''in'', ''bad.png''] [''in''] [''out'']
     \<lparr>operation = ''brightness_only'', bg_mode = ''transparent'', bg_rgba = (0, 0, 0, 0), pad = 0,
      square = False, square_size = None, no_upscale = True, brightness = 6 / 5,
      enable_resize = False, target_w = 0, target_h = 0, resize_mode = ''keep_aspect_pad''\<rparr>
     Map.empty
   = (([''in'', ''bad.png''], [], False, ''cannot identify image file''), Map.empty) \<and>
   failures (processing_loop
     \<lparr>open_image = (\<lambda>q. if q = [''in'', ''ok.png'']
                          then Inr \<lparr>mode = ''RGB'', width = 8, height = 8, pixels = Decoded ''ok.png''\<rparr>
                          else Inl (OSError ''cannot identify image file'')),
      mkdir_parents = (\<lambda>q. None), save_file = (\<lambda>i q. None)\<rparr>
     [''in''] [''out'']
     \<lparr>operation = ''brightness_only'', bg_mode = ''transparent'', bg_rgba = (0, 0, 0, 0), pad = 0,
      square = False, square_size = None, no_upscale = True, brightness = 6 / 5,
      enable_resize = False, target_w = 0, target_h = 0, resize_mode = ''keep_aspect_pad''\<rparr>
     [[''in'', ''bad.png''], [''in'', ''ok.png'']]
     \<lparr>successes = 0, failures = [], written = Map.empty\<rparr>)
   = [([''in'', ''bad.png''], ''cannot identify image file'')] \<and>
   successes (processing_loop
     \<lparr>open_image = (\<lambda>q. if q = [''in'', ''ok.png'']
                          then Inr \<lparr>mode = ''RGB'', width = 8, height = 8, pixels = Decoded ''ok.png''\<rparr>
                          else Inl (OSError ''cannot identify image file'')),
      mkdir_parents = (\<lambda>q. None), save_file = (\<lambda>i q. None)\<rparr>
     [''in''] [''out'']
     \<lparr>operation = ''brightness_only'', bg_mode = ''transparent'', bg_rgba = (0, 0, 0, 0), pad = 0,
      square = False, square_size = None, no_upscale = True, brightness = 6 / 5,
      enable_resize = False, target_w = 0, target_h = 0, resize_mode = ''keep_aspect_pad''\<rparr>
     [[''in'', ''bad.png''], [''in'', ''ok.png'']]
     \<lparr>successes = 0, failures = [], written = Map.empty\<rparr>)
   = 1"
  using process_one_catches_and_loop_continues
    [where ev = "\<lparr>open_image = (\<lambda>q. if q = [''in'', ''ok.png'']
                          then Inr \<lparr>mode = ''RGB'', width = 8, height = 8, pixels = Decoded ''ok.png''\<rparr>
                          else Inl (OSError ''cannot identify image file'')),
      mkdir_parents = (\<lambda>q. None), save_file = (\<lambda>i q. None)\<rparr>"
     and p = "[''in'', ''bad.png'']" and in_root = "[''in'']" and out_root = "[''out'']"
     and kw = "\<lparr>operation = ''brightness_only'', bg_mode = ''transparent'', bg_rgba = (0, 0, 0, 0), pad = 0,
      square = False, square_size = None, no_upscale = True, brightness = 6 / 5,
      enable_resize = False, target_w = 0, target_h = 0, resize_mode = ''keep_aspect_pad''\<rparr>"
     and d = Map.empty and e = "OSError ''cannot identify image file''"
     and rel = "[''bad.png'']" and out_path = "[''out'', ''bad.png'']"
     and images = "[[''in'', ''bad.png''], [''in'', ''ok.png'']]"
     and st = "\<lparr>successes = 0, failures = [], written = Map.empty\<rparr>"]
  by (simp add: process_one_def process_body_def relative_to_def with_suffix_def
      path_suffix_def path_name_def transform_def apply_brightness_def brightness_enhance_def
      save_image_def ensure_dir_def save_path_def pil_save_def lower_def lower_char_def)

end
